theory Spec2Isabelle
  imports Main
begin

section \<open>The remote API as the script sees it\<close>

text \<open>
  The script \<^verbatim>\<open>approve-dependabot-prs.js\<close> talks to GitHub through an Octokit client.
  Every awaited call either resolves with a response or rejects with an error object, and
  the remote system may change between two calls. A call is therefore a function from the
  remote state \<open>'s\<close> to a result and the next remote state; the client is a record of such
  functions, one per endpoint the script uses. Nothing is assumed about the remote system:
  every theorem below holds for every client.
\<close>

record api_error =
  status :: "int option"  \<comment> \<open>\<^verbatim>\<open>err.status\<close>; \<open>None\<close> when the error carries none\<close>
  message :: string

record pull_request =
  number :: int
  title :: string
  user_login :: "string option"  \<comment> \<open>\<^verbatim>\<open>pr.user?.login\<close>\<close>
  head_sha :: string  \<comment> \<open>\<^verbatim>\<open>pr.head.sha\<close>\<close>
  mergeable_state :: "string option"  \<comment> \<open>absent in the list response\<close>

record review =
  review_user_login :: "string option"  \<comment> \<open>\<^verbatim>\<open>r.user.login\<close>; \<open>None\<close> when \<^verbatim>\<open>r.user\<close> is null\<close>
  review_state :: string

record 's octokit =
  orgs_get :: "string \<Rightarrow> 's \<Rightarrow> (api_error + unit) \<times> 's"
  pulls_list :: "string \<Rightarrow> string \<Rightarrow> 's \<Rightarrow> (api_error + pull_request list) \<times> 's"
  pulls_get :: "string \<Rightarrow> string \<Rightarrow> int \<Rightarrow> 's \<Rightarrow> (api_error + pull_request) \<times> 's"
  update_branch :: "string \<Rightarrow> string \<Rightarrow> int \<Rightarrow> string \<Rightarrow> 's \<Rightarrow> (api_error + unit) \<times> 's"
  getCombinedStatusForRef :: "string \<Rightarrow> string \<Rightarrow> string \<Rightarrow> 's \<Rightarrow> (api_error + string) \<times> 's"
  users_getAuthenticated :: "'s \<Rightarrow> (api_error + string) \<times> 's"
  pulls_listReviews :: "string \<Rightarrow> string \<Rightarrow> int \<Rightarrow> 's \<Rightarrow> (api_error + review list) \<times> 's"
  pulls_createReview :: "string \<Rightarrow> string \<Rightarrow> int \<Rightarrow> string \<Rightarrow> string \<Rightarrow> 's \<Rightarrow> (api_error + unit) \<times> 's"

text \<open>The requests the script issues, with the arguments it passes, in issuance order.\<close>

datatype call =
  OrgsGet string
  | PullsList string string
  | PullsGet string string int
  | UpdateBranch string string int string  \<comment> \<open>owner, repo, pull number, expected head SHA\<close>
  | GetCombinedStatusForRef string string string  \<comment> \<open>owner, repo, ref\<close>
  | UsersGetAuthenticated
  | PullsListReviews string string int
  | PullsCreateReview string string int string string  \<comment> \<open>owner, repo, pull number, event, body\<close>

section \<open>The state of one run\<close>

record run_stats =
  approved :: nat
  skipped :: nat
  updated :: nat
  saml_blocked :: nat

record access_check =
  hasAccess :: bool
  error :: "string option"

record 's run_state =
  stats :: run_stats
  orgAccessCache :: "string \<rightharpoonup> access_check"
  calls :: "call list"
  remote :: 's

text \<open>One awaited request: it is recorded, and the remote system moves on.\<close>

definition invoke :: "call \<Rightarrow> ('s \<Rightarrow> 'r \<times> 's) \<Rightarrow> 's run_state \<Rightarrow> 'r \<times> 's run_state" where
  "invoke c f st =
     (case f (remote st) of
        (r, s') \<Rightarrow> (r, st\<lparr>calls := calls st @ [c], remote := s'\<rparr>))"

definition inc_approved :: "'s run_state \<Rightarrow> 's run_state" where
  "inc_approved st = st\<lparr>stats := (stats st)\<lparr>approved := approved (stats st) + 1\<rparr>\<rparr>"

definition inc_skipped :: "'s run_state \<Rightarrow> 's run_state" where
  "inc_skipped st = st\<lparr>stats := (stats st)\<lparr>skipped := skipped (stats st) + 1\<rparr>\<rparr>"

definition inc_updated :: "'s run_state \<Rightarrow> 's run_state" where
  "inc_updated st = st\<lparr>stats := (stats st)\<lparr>updated := updated (stats st) + 1\<rparr>\<rparr>"

definition inc_saml_blocked :: "'s run_state \<Rightarrow> 's run_state" where
  "inc_saml_blocked st = st\<lparr>stats := (stats st)\<lparr>saml_blocked := saml_blocked (stats st) + 1\<rparr>\<rparr>"

section \<open>The functions of the script\<close>

subsection \<open>isPullRequestGreen\<close>

definition isPullRequestGreen ::
  "'s octokit \<Rightarrow> string \<Rightarrow> string \<Rightarrow> pull_request \<Rightarrow> 's run_state \<Rightarrow> bool \<times> 's run_state" where
  "isPullRequestGreen api owner repo pr st =
     (case invoke (GetCombinedStatusForRef owner repo (head_sha pr))
             (getCombinedStatusForRef api owner repo (head_sha pr)) st of
        (Inr data_state, st') \<Rightarrow> (data_state = ''success'', st')
      | (Inl err, st') \<Rightarrow> (False, st'))"

subsection \<open>syncBranchIfBehind\<close>

definition outdatedStates :: "string list" where
  "outdatedStates = [''behind'', ''blocked'']"

text \<open>
  \<^verbatim>\<open>outdatedStates.includes(pr.mergeable_state)\<close>: an absent state is in no list of strings.
\<close>

definition is_outdated :: "pull_request \<Rightarrow> bool" where
  "is_outdated pr =
     (case mergeable_state pr of None \<Rightarrow> False | Some ms \<Rightarrow> ms \<in> set outdatedStates)"

text \<open>
  The two branches of the \<^verbatim>\<open>catch\<close> (status 422 or not) differ in the line they print
  only; both return \<^verbatim>\<open>false\<close>.
\<close>

definition syncBranchIfBehind ::
  "'s octokit \<Rightarrow> string \<Rightarrow> string \<Rightarrow> pull_request \<Rightarrow> 's run_state \<Rightarrow> bool \<times> 's run_state" where
  "syncBranchIfBehind api owner repo pr st =
     (if \<not> is_outdated pr then (False, st)
      else
        (case invoke (UpdateBranch owner repo (number pr) (head_sha pr))
                (update_branch api owner repo (number pr) (head_sha pr)) st of
           (Inr _, st') \<Rightarrow> (True, st')
         | (Inl err, st') \<Rightarrow> (if status err = Some 422 then (False, st') else (False, st'))))"

subsection \<open>approvePullRequest\<close>

text \<open>
  Reading \<^verbatim>\<open>r.user.login\<close> of a review whose author is null throws a \<^verbatim>\<open>TypeError\<close>. The
  error object has no \<^verbatim>\<open>status\<close>; the message is the one Node prints.
\<close>

definition type_error :: api_error where
  "type_error =
     \<lparr>status = None,
      message = ''Cannot read properties of null (reading '' @ [CHR 0x27] @ ''login''
        @ [CHR 0x27] @ '')''\<rparr>"

text \<open>
  \<^verbatim>\<open>reviews.some((r) => r.user.login === currentUserLogin && r.state === "APPROVED")\<close>: the
  reviews are visited in order, the author's login is read first, and the visit stops at
  the first review that matches, or at the first one without an author, with the
  \<^verbatim>\<open>TypeError\<close>.
\<close>

fun alreadyApproved :: "string \<Rightarrow> review list \<Rightarrow> api_error + bool" where
  "alreadyApproved currentUserLogin [] = Inr False"
| "alreadyApproved currentUserLogin (r # rs) =
     (case review_user_login r of
        None \<Rightarrow> Inl type_error
      | Some login \<Rightarrow>
          if login = currentUserLogin \<and> review_state r = ''APPROVED'' then Inr True
          else alreadyApproved currentUserLogin rs)"

definition approvePullRequest ::
  "'s octokit \<Rightarrow> string \<Rightarrow> string \<Rightarrow> int \<Rightarrow> 's run_state \<Rightarrow> (api_error + unit) \<times> 's run_state" where
  "approvePullRequest api owner repo pullNumber st =
     (case invoke UsersGetAuthenticated (users_getAuthenticated api) st of
        (Inl err, st1) \<Rightarrow> (Inl err, st1)
      | (Inr currentUserLogin, st1) \<Rightarrow>
          (case invoke (PullsListReviews owner repo pullNumber)
                  (pulls_listReviews api owner repo pullNumber) st1 of
             (Inl err, st2) \<Rightarrow> (Inl err, st2)
           | (Inr reviews, st2) \<Rightarrow>
               (case alreadyApproved currentUserLogin reviews of
                  Inl err \<Rightarrow> (Inl err, st2)
                | Inr True \<Rightarrow> (Inr (), st2)
                | Inr False \<Rightarrow>
                    (case invoke (PullsCreateReview owner repo pullNumber ''APPROVE'' [])
                            (pulls_createReview api owner repo pullNumber ''APPROVE'' []) st2 of
                       (Inl err, st3) \<Rightarrow> (Inl err, st3)
                     | (Inr _, st3) \<Rightarrow> (Inr (), st3)))))"

subsection \<open>checkSAMLAccess\<close>

definition TOKEN_FILE :: string where
  "TOKEN_FILE = ''token.txt''"

definition saml_message :: "string \<Rightarrow> string" where
  "saml_message owner =
     ''SAML SSO: Token not authorized for organization '' @ [CHR 0x27] @ owner @ [CHR 0x27]
       @ ''. Please authorize your token at: https://github.com/settings/tokens''"

definition auth_message :: string where
  "auth_message =
     ''Authentication failed: Invalid or expired token. Please check your token in ''
       @ TOKEN_FILE"

definition checkSAMLAccess ::
  "'s octokit \<Rightarrow> string \<Rightarrow> 's run_state \<Rightarrow> access_check \<times> 's run_state" where
  "checkSAMLAccess api owner st =
     (case invoke (OrgsGet owner) (orgs_get api owner) st of
        (Inr _, st') \<Rightarrow> (\<lparr>hasAccess = True, error = None\<rparr>, st')
      | (Inl err, st') \<Rightarrow>
          if status err = Some 403 then
            (\<lparr>hasAccess = False, error = Some (saml_message owner)\<rparr>, st')
          else if status err = Some 401 then
            (\<lparr>hasAccess = False, error = Some auth_message\<rparr>, st')
          else (\<lparr>hasAccess = True, error = None\<rparr>, st'))"

subsection \<open>main\<close>

text \<open>
  \<^verbatim>\<open>fullName.split("/")\<close>: the pieces between the slashes, one more than there are
  slashes.
\<close>

fun split_on :: "char \<Rightarrow> string \<Rightarrow> string list" where
  "split_on sep [] = [[]]"
| "split_on sep (c # cs) =
     (if c = sep then [] # split_on sep cs
      else (case split_on sep cs of
              [] \<Rightarrow> [[c]]
            | p # ps \<Rightarrow> (c # p) # ps))"

text \<open>
  \<^verbatim>\<open>const [owner, repo] = fullName.split("/"); if (!owner || !repo) ... continue\<close>: a line is
  taken when its first two pieces exist and are not empty; further pieces are ignored.
\<close>

definition parse_full_name :: "string \<Rightarrow> (string \<times> string) option" where
  "parse_full_name fullName =
     (case split_on CHR ''/'' fullName of
        owner # repo # _ \<Rightarrow> if owner = [] \<or> repo = [] then None else Some (owner, repo)
      | _ \<Rightarrow> None)"

text \<open>
  \<^verbatim>\<open>toLowerCase\<close> on the letters A to Z; a login is a string of ASCII characters.
\<close>

definition lower_char :: "char \<Rightarrow> char" where
  "lower_char c =
     (case map_of (zip ''ABCDEFGHIJKLMNOPQRSTUVWXYZ'' ''abcdefghijklmnopqrstuvwxyz'') c of
        Some l \<Rightarrow> l
      | None \<Rightarrow> c)"

definition toLowerCase :: "string \<Rightarrow> string" where
  "toLowerCase s = map lower_char s"

fun includes_str :: "string \<Rightarrow> string \<Rightarrow> bool" where
  "includes_str [] sub = (sub = [])"
| "includes_str (c # cs) sub = (take (length sub) (c # cs) = sub \<or> includes_str cs sub)"

text \<open>\<^verbatim>\<open>pr.user?.login?.toLowerCase().includes("dependabot")\<close>, as a filter predicate.\<close>

definition is_dependabot :: "pull_request \<Rightarrow> bool" where
  "is_dependabot pr =
     (case user_login pr of
        None \<Rightarrow> False
      | Some login \<Rightarrow> includes_str (toLowerCase login) ''dependabot'')"

text \<open>
  The body of the loop over the Dependabot pull requests of one repository, for the list
  item \<open>pr\<close>. \<open>Inl err\<close> is an exception that leaves the loop; \<open>Inr ()\<close> is the end of the
  iteration (by \<^verbatim>\<open>continue\<close> or by reaching the end of the body).
\<close>

definition triage_pr ::
  "'s octokit \<Rightarrow> string \<Rightarrow> string \<Rightarrow> pull_request \<Rightarrow> 's run_state \<Rightarrow> (api_error + unit) \<times> 's run_state" where
  "triage_pr api owner repo pr st =
     (case invoke (PullsGet owner repo (number pr)) (pulls_get api owner repo (number pr)) st of
        (Inl err, st1) \<Rightarrow> (Inl err, st1)
      | (Inr prDetails, st1) \<Rightarrow>
          (case syncBranchIfBehind api owner repo prDetails st1 of
             (True, st2) \<Rightarrow> (Inr (), inc_updated st2)
           | (False, st2) \<Rightarrow>
               (case isPullRequestGreen api owner repo pr st2 of
                  (False, st3) \<Rightarrow> (Inr (), inc_skipped st3)
                | (True, st3) \<Rightarrow>
                    (case approvePullRequest api owner repo (number pr) st3 of
                       (Inl err, st4) \<Rightarrow> (Inl err, st4)
                     | (Inr _, st4) \<Rightarrow> (Inr (), inc_approved st4)))))"

text \<open>\<^verbatim>\<open>for (const pr of dependabotPRs) { ... }\<close>: an exception ends the loop.\<close>

fun triage_prs ::
  "'s octokit \<Rightarrow> string \<Rightarrow> string \<Rightarrow> pull_request list \<Rightarrow> 's run_state \<Rightarrow> (api_error + unit) \<times> 's run_state" where
  "triage_prs api owner repo [] st = (Inr (), st)"
| "triage_prs api owner repo (pr # prs) st =
     (case triage_pr api owner repo pr st of
        (Inl err, st') \<Rightarrow> (Inl err, st')
      | (Inr _, st') \<Rightarrow> triage_prs api owner repo prs st')"

text \<open>The \<^verbatim>\<open>catch\<close> around the work on one repository.\<close>

definition catch_repo :: "api_error \<Rightarrow> 's run_state \<Rightarrow> 's run_state" where
  "catch_repo err st =
     (if status err = Some 403 then inc_saml_blocked st
      else if status err = Some 401 then inc_saml_blocked st
      else inc_skipped st)"

text \<open>The \<^verbatim>\<open>try\<close> block: list the open pull requests, keep Dependabot's, triage each.\<close>

definition try_repo :: "'s octokit \<Rightarrow> string \<Rightarrow> string \<Rightarrow> 's run_state \<Rightarrow> 's run_state" where
  "try_repo api owner repo st =
     (case invoke (PullsList owner repo) (pulls_list api owner repo) st of
        (Inl err, st1) \<Rightarrow> catch_repo err st1
      | (Inr pullRequests, st1) \<Rightarrow>
          (let dependabotPRs = filter is_dependabot pullRequests in
           if dependabotPRs = [] then st1
           else
             (case triage_prs api owner repo dependabotPRs st1 of
                (Inl err, st2) \<Rightarrow> catch_repo err st2
              | (Inr _, st2) \<Rightarrow> st2)))"

text \<open>
  \<^verbatim>\<open>if (!orgAccessCache.has(owner)) orgAccessCache.set(owner, await checkSAMLAccess(owner));
  const accessInfo = orgAccessCache.get(owner)\<close>
\<close>

definition cached_access ::
  "'s octokit \<Rightarrow> string \<Rightarrow> 's run_state \<Rightarrow> access_check \<times> 's run_state" where
  "cached_access api owner st =
     (case orgAccessCache st owner of
        Some accessInfo \<Rightarrow> (accessInfo, st)
      | None \<Rightarrow>
          (case checkSAMLAccess api owner st of
             (accessCheck, st') \<Rightarrow>
               (accessCheck, st'\<lparr>orgAccessCache := (orgAccessCache st')(owner \<mapsto> accessCheck)\<rparr>)))"

text \<open>The body of the loop over the lines of the repository list.\<close>

definition process_repo :: "'s octokit \<Rightarrow> 's run_state \<Rightarrow> string \<Rightarrow> 's run_state" where
  "process_repo api st fullName =
     (case parse_full_name fullName of
        None \<Rightarrow> st
      | Some (owner, repo) \<Rightarrow>
          (case cached_access api owner st of
             (accessInfo, st1) \<Rightarrow>
               if \<not> hasAccess accessInfo then inc_saml_blocked st1
               else try_repo api owner repo st1))"

definition initial_state :: "'s \<Rightarrow> 's run_state" where
  "initial_state s =
     \<lparr>stats = \<lparr>approved = 0, skipped = 0, updated = 0, saml_blocked = 0\<rparr>,
      orgAccessCache = Map.empty, calls = [], remote = s\<rparr>"

definition run_from :: "'s octokit \<Rightarrow> 's run_state \<Rightarrow> string list \<Rightarrow> 's run_state" where
  "run_from api st repos = foldl (process_repo api) st repos"

definition main :: "'s octokit \<Rightarrow> string list \<Rightarrow> 's \<Rightarrow> 's run_state" where
  "main api repos s = run_from api (initial_state s) repos"

text \<open>
  The counts the summary prints, by label, in the order printed; the line for the blocked
  repositories is printed only when there is one.
\<close>

definition summary :: "run_stats \<Rightarrow> (string \<times> nat) list" where
  "summary s =
     [(''Approved'', approved s), (''Skipped'', skipped s), (''Updated'', updated s)]
       @ (if saml_blocked s > 0 then [(''SAML Blocked'', saml_blocked s)] else [])"

text \<open>The requests issued between two states of a run.\<close>

definition new_calls :: "'s run_state \<Rightarrow> 's run_state \<Rightarrow> call list" where
  "new_calls st st' = drop (length (calls st)) (calls st')"

section \<open>Observing a run\<close>

text \<open>Kinds of requests, for counting them in the record of a run.\<close>

fun is_probe :: "call \<Rightarrow> bool" where
  "is_probe (OrgsGet org) = True"
| "is_probe c = False"

fun is_update_branch :: "call \<Rightarrow> bool" where
  "is_update_branch (UpdateBranch owner repo n sha) = True"
| "is_update_branch c = False"

fun is_status_query :: "call \<Rightarrow> bool" where
  "is_status_query (GetCombinedStatusForRef owner repo ref) = True"
| "is_status_query c = False"

fun is_create_review :: "call \<Rightarrow> bool" where
  "is_create_review (PullsCreateReview owner repo n event body) = True"
| "is_create_review c = False"

definition stats_le :: "run_stats \<Rightarrow> run_stats \<Rightarrow> bool" where
  "stats_le a b =
     (approved a \<le> approved b \<and> skipped a \<le> skipped b \<and> updated a \<le> updated b \<and>
      saml_blocked a \<le> saml_blocked b)"

text \<open>
  A stretch of a run that leaves the access cache alone, issues no organization probe and
  lowers no counter. Everything the script does after the access decision is of this kind.
\<close>

definition quiet_step :: "'s run_state \<Rightarrow> 's run_state \<Rightarrow> bool" where
  "quiet_step st st' =
     (orgAccessCache st' = orgAccessCache st \<and> stats_le (stats st) (stats st') \<and>
      (\<exists>xs. calls st' = calls st @ xs \<and> (\<forall>c \<in> set xs. \<not> is_probe c)))"

text \<open>
  The loop invariant behind the cache: an organization that is not in the cache has not been
  probed, and one that is has been probed at most once.
\<close>

definition probe_inv :: "string \<Rightarrow> 's run_state \<Rightarrow> bool" where
  "probe_inv org st =
     (count_list (calls st) (OrgsGet org)
        \<le> (case orgAccessCache st org of None \<Rightarrow> 0 | Some _ \<Rightarrow> 1))"

text \<open>
  The one operation the script applies to a counter: \<^verbatim>\<open>stats.x++\<close>, for each of the
  four counters, and a sequence of such operations.
\<close>

datatype counter = Approved | Skipped | Updated | SamlBlocked

fun bump :: "counter \<Rightarrow> run_stats \<Rightarrow> run_stats" where
  "bump Approved s = s\<lparr>approved := approved s + 1\<rparr>"
| "bump Skipped s = s\<lparr>skipped := skipped s + 1\<rparr>"
| "bump Updated s = s\<lparr>updated := updated s + 1\<rparr>"
| "bump SamlBlocked s = s\<lparr>saml_blocked := saml_blocked s + 1\<rparr>"

fun bumps :: "counter list \<Rightarrow> run_stats \<Rightarrow> run_stats" where
  "bumps [] s = s"
| "bumps (c # cs) s = bumps cs (bump c s)"

section \<open>Concrete remote systems\<close>

text \<open>
  Small remote systems on which the theorems below are instantiated. \<open>quiet_api\<close> accepts
  every request, has no pull requests and no reviews, and reports every commit as pending;
  the others change one or two endpoints of it.
\<close>

definition http_error :: "int \<Rightarrow> api_error" where
  "http_error n = \<lparr>status = Some n, message = ''HttpError''\<rparr>"

definition pr_item :: "int \<Rightarrow> string \<Rightarrow> pull_request" where
  "pr_item n sha =
     \<lparr>number = n, title = ''Bump'', user_login = Some ''dependabot[bot]'', head_sha = sha,
      mergeable_state = None\<rparr>"

definition pr_details :: "int \<Rightarrow> string \<Rightarrow> string \<Rightarrow> pull_request" where
  "pr_details n sha ms = (pr_item n sha)\<lparr>mergeable_state := Some ms\<rparr>"

definition quiet_api :: "unit octokit" where
  "quiet_api =
     \<lparr>orgs_get = (\<lambda>org s. (Inr (), s)),
      pulls_list = (\<lambda>owner repo s. (Inr [], s)),
      pulls_get = (\<lambda>owner repo n s. (Inl (http_error 404), s)),
      update_branch = (\<lambda>owner repo n sha s. (Inr (), s)),
      getCombinedStatusForRef = (\<lambda>owner repo ref s. (Inr ''pending'', s)),
      users_getAuthenticated = (\<lambda>s. (Inr ''me'', s)),
      pulls_listReviews = (\<lambda>owner repo n s. (Inr [], s)),
      pulls_createReview = (\<lambda>owner repo n event body s. (Inr (), s))\<rparr>"

text \<open>The organization answers the probe with the given HTTP status.\<close>

definition api_probe_fails :: "int \<Rightarrow> unit octokit" where
  "api_probe_fails n = quiet_api\<lparr>orgs_get := (\<lambda>org s. (Inl (http_error n), s))\<rparr>"

text \<open>
  One open Dependabot pull request that is behind its base; the update-branch request is
  rejected with status 422, and the commit is green.
\<close>

definition api_behind_rejected :: "unit octokit" where
  "api_behind_rejected =
     quiet_api
       \<lparr>pulls_list := (\<lambda>owner repo s. (Inr [pr_item 1 ''abc''], s)),
        pulls_get := (\<lambda>owner repo n s. (Inr (pr_details n ''abc'' ''behind''), s)),
        update_branch := (\<lambda>owner repo n sha s. (Inl (http_error 422), s)),
        getCombinedStatusForRef := (\<lambda>owner repo ref s. (Inr ''success'', s))\<rparr>"

text \<open>The same, with the update-branch request accepted.\<close>

definition api_behind_accepted :: "unit octokit" where
  "api_behind_accepted =
     api_behind_rejected\<lparr>update_branch := (\<lambda>owner repo n sha s. (Inr (), s))\<rparr>"

text \<open>
  The head of the pull request moved between the list and the fresh fetch: the list says
  \<^verbatim>\<open>old\<close>, the details say \<^verbatim>\<open>new\<close>, and only \<^verbatim>\<open>old\<close> is green.
\<close>

definition api_head_moved :: "unit octokit" where
  "api_head_moved =
     quiet_api
       \<lparr>pulls_list := (\<lambda>owner repo s. (Inr [pr_item 1 ''old''], s)),
        pulls_get := (\<lambda>owner repo n s. (Inr (pr_details n ''new'' ''clean''), s)),
        getCombinedStatusForRef :=
          (\<lambda>owner repo ref s. (Inr (if ref = ''old'' then ''success'' else ''pending''), s))\<rparr>"

text \<open>One open Dependabot pull request, up to date, whose commit is still pending.\<close>

definition api_not_green :: "unit octokit" where
  "api_not_green =
     quiet_api
       \<lparr>pulls_list := (\<lambda>owner repo s. (Inr [pr_item 1 ''abc''], s)),
        pulls_get := (\<lambda>owner repo n s. (Inr (pr_details n ''abc'' ''clean''), s))\<rparr>"

text \<open>Listing the pull requests fails with status 500.\<close>

definition api_list_fails :: "unit octokit" where
  "api_list_fails = quiet_api\<lparr>pulls_list := (\<lambda>owner repo s. (Inl (http_error 500), s))\<rparr>"

text \<open>
  Two open Dependabot pull requests, both green; fetching the first fails with the given
  status, fetching the second succeeds.
\<close>

definition api_first_pr_throws :: "int \<Rightarrow> unit octokit" where
  "api_first_pr_throws code =
     quiet_api
       \<lparr>pulls_list := (\<lambda>owner repo s. (Inr [pr_item 1 ''aaa'', pr_item 2 ''bbb''], s)),
        pulls_get := (\<lambda>owner repo n s.
          (if n = 1 then Inl (http_error code) else Inr (pr_details n ''bbb'' ''clean''), s)),
        getCombinedStatusForRef := (\<lambda>owner repo ref s. (Inr ''success'', s))\<rparr>"

text \<open>
  A remote system that remembers reviews: its state is the list of reviews of the one pull
  request it has, creating a review appends an approval by the token owner, and listing
  returns what has been recorded. The pull request is up to date and green.
\<close>

definition recording_api :: "review list octokit" where
  "recording_api =
     \<lparr>orgs_get = (\<lambda>org s. (Inr (), s)),
      pulls_list = (\<lambda>owner repo s. (Inr [pr_item 7 ''c0ffee''], s)),
      pulls_get = (\<lambda>owner repo n s. (Inr (pr_details n ''c0ffee'' ''clean''), s)),
      update_branch = (\<lambda>owner repo n sha s. (Inr (), s)),
      getCombinedStatusForRef = (\<lambda>owner repo ref s. (Inr ''success'', s)),
      users_getAuthenticated = (\<lambda>s. (Inr ''me'', s)),
      pulls_listReviews = (\<lambda>owner repo n s. (Inr s, s)),
      pulls_createReview = (\<lambda>owner repo n event body s.
         (Inr (), s @ [\<lparr>review_user_login = Some ''me'', review_state = ''APPROVED''\<rparr>]))\<rparr>"

text \<open>
  The review list holds a comment by a deleted account (its author is null) followed by an
  approval by the token owner.
\<close>

definition api_ghost_then_approved :: "unit octokit" where
  "api_ghost_then_approved =
     quiet_api
       \<lparr>pulls_listReviews := (\<lambda>owner repo n s.
          (Inr [\<lparr>review_user_login = None, review_state = ''COMMENTED''\<rparr>,
                \<lparr>review_user_login = Some ''me'', review_state = ''APPROVED''\<rparr>], s))\<rparr>"

text \<open>
  One open Dependabot pull request, up to date and green, with no reviews; every request
  is accepted.
\<close>

definition api_green :: "unit octokit" where
  "api_green =
     quiet_api
       \<lparr>pulls_list := (\<lambda>owner repo s. (Inr [pr_item 1 ''abc''], s)),
        pulls_get := (\<lambda>owner repo n s. (Inr (pr_details n ''abc'' ''clean''), s)),
        getCombinedStatusForRef := (\<lambda>owner repo ref s. (Inr ''success'', s))\<rparr>"

text \<open>The same, with one review on the pull request: a comment whose author is null.\<close>

definition api_ghost_review :: "unit octokit" where
  "api_ghost_review =
     api_green
       \<lparr>pulls_listReviews := (\<lambda>owner repo n s.
          (Inr [\<lparr>review_user_login = None, review_state = ''COMMENTED''\<rparr>], s))\<rparr>"

text \<open>The same as \<open>api_green\<close>, with the create-review request rejected with status 422.\<close>

definition api_create_rejected :: "unit octokit" where
  "api_create_rejected =
     api_green\<lparr>pulls_createReview := (\<lambda>owner repo n event body s. (Inl (http_error 422), s))\<rparr>"

text \<open>The same as \<open>api_green\<close>, with the identity lookup failing with status 500.\<close>

definition api_identity_fails :: "unit octokit" where
  "api_identity_fails =
     api_green\<lparr>users_getAuthenticated := (\<lambda>s. (Inl (http_error 500), s))\<rparr>"

section \<open>Properties\<close>

lemmas run_defs = main_def run_from_def process_repo_def parse_full_name_def cached_access_def
  checkSAMLAccess_def try_repo_def catch_repo_def triage_pr_def syncBranchIfBehind_def
  is_outdated_def outdatedStates_def isPullRequestGreen_def approvePullRequest_def
  invoke_def initial_state_def inc_approved_def inc_skipped_def
  inc_updated_def inc_saml_blocked_def is_dependabot_def toLowerCase_def lower_char_def
  new_calls_def

lemmas example_defs = quiet_api_def http_error_def pr_item_def pr_details_def

subsection \<open>The CI readiness check\<close>

text \<open>
  Claim C3. For every repository and pull request, \<open>isPullRequestGreen\<close> answers
  \<^verbatim>\<open>true\<close> exactly when the combined-status query for the head SHA resolves with the
  aggregate state \<^verbatim>\<open>"success"\<close>. Every other aggregate state gives \<^verbatim>\<open>false\<close>, and so does
  a query that rejects, whatever its error: the check fails closed.
\<close>

theorem isPullRequestGreen_iff_success:
  "fst (isPullRequestGreen api owner repo pr st) =
     (fst (getCombinedStatusForRef api owner repo (head_sha pr) (remote st)) = Inr ''success'')"
  by (simp add: isPullRequestGreen_def invoke_def split: prod.splits sum.splits)

subsection \<open>The access gate\<close>

text \<open>
  Claim C5. For every organization, \<open>checkSAMLAccess\<close> issues the probe and maps its
  outcome as follows: a rejection with status 403 gives \<^verbatim>\<open>hasAccess = false\<close> with the
  SAML authorization message, a rejection with status 401 gives \<^verbatim>\<open>hasAccess = false\<close>
  with the invalid-or-expired-token message, and every other outcome, a success as well as
  a rejection with any other status or with none, gives \<^verbatim>\<open>hasAccess = true\<close>.
\<close>

theorem checkSAMLAccess_mapping:
  "(\<forall>err. fst (orgs_get api owner (remote st)) = Inl err \<and> status err = Some 403 \<longrightarrow>
      fst (checkSAMLAccess api owner st) =
        \<lparr>hasAccess = False, error = Some (saml_message owner)\<rparr>) \<and>
   (\<forall>err. fst (orgs_get api owner (remote st)) = Inl err \<and> status err = Some 401 \<longrightarrow>
      fst (checkSAMLAccess api owner st) = \<lparr>hasAccess = False, error = Some auth_message\<rparr>) \<and>
   (\<forall>err. fst (orgs_get api owner (remote st)) = Inl err \<and> status err \<noteq> Some 403
        \<and> status err \<noteq> Some 401 \<longrightarrow>
      fst (checkSAMLAccess api owner st) = \<lparr>hasAccess = True, error = None\<rparr>) \<and>
   (fst (orgs_get api owner (remote st)) = Inr () \<longrightarrow>
      fst (checkSAMLAccess api owner st) = \<lparr>hasAccess = True, error = None\<rparr>) \<and>
   new_calls st (snd (checkSAMLAccess api owner st)) = [OrgsGet owner]"
  by (simp add: checkSAMLAccess_def invoke_def new_calls_def split: prod.splits sum.splits)

theorem checkSAMLAccess_mapping_witness:
  "fst (checkSAMLAccess (api_probe_fails 403) ''acme'' (initial_state ())) =
     \<lparr>hasAccess = False, error = Some (saml_message ''acme'')\<rparr> \<and>
   fst (checkSAMLAccess (api_probe_fails 401) ''acme'' (initial_state ())) =
     \<lparr>hasAccess = False, error = Some auth_message\<rparr> \<and>
   fst (checkSAMLAccess (api_probe_fails 404) ''acme'' (initial_state ())) =
     \<lparr>hasAccess = True, error = None\<rparr> \<and>
   fst (checkSAMLAccess quiet_api ''acme'' (initial_state ())) =
     \<lparr>hasAccess = True, error = None\<rparr>"
  using checkSAMLAccess_mapping [of "api_probe_fails 403" "''acme''" "initial_state ()"]
    checkSAMLAccess_mapping [of "api_probe_fails 401" "''acme''" "initial_state ()"]
    checkSAMLAccess_mapping [of "api_probe_fails 404" "''acme''" "initial_state ()"]
    checkSAMLAccess_mapping [of quiet_api "''acme''" "initial_state ()"]
  by (simp add: api_probe_fails_def quiet_api_def http_error_def initial_state_def)

subsection \<open>What each function sends\<close>

lemma calls_isPullRequestGreen:
  "calls (snd (isPullRequestGreen api owner repo pr st)) =
     calls st @ [GetCombinedStatusForRef owner repo (head_sha pr)]"
  by (simp add: isPullRequestGreen_def invoke_def split: prod.splits sum.splits)

lemma calls_syncBranchIfBehind:
  "calls (snd (syncBranchIfBehind api owner repo d st)) =
     calls st @ (if is_outdated d then [UpdateBranch owner repo (number d) (head_sha d)] else [])"
  by (simp add: syncBranchIfBehind_def invoke_def split: prod.splits sum.splits)

lemma calls_approvePullRequest:
  "\<exists>xs. calls (snd (approvePullRequest api owner repo n st)) = calls st @ xs \<and>
     xs \<in> {[UsersGetAuthenticated],
           [UsersGetAuthenticated, PullsListReviews owner repo n],
           [UsersGetAuthenticated, PullsListReviews owner repo n,
            PullsCreateReview owner repo n ''APPROVE'' '''']}"
  by (simp add: approvePullRequest_def invoke_def split: prod.splits sum.splits bool.splits)

text \<open>The pass on one pull request, once the fresh fetch has succeeded.\<close>

lemma triage_pr_after_fetch:
  assumes "pulls_get api owner repo (number pr) (remote st) = (Inr d, s1)"
  shows "triage_pr api owner repo pr st =
    (case syncBranchIfBehind api owner repo d
            (st\<lparr>calls := calls st @ [PullsGet owner repo (number pr)], remote := s1\<rparr>) of
       (True, st2) \<Rightarrow> (Inr (), inc_updated st2)
     | (False, st2) \<Rightarrow>
         (case isPullRequestGreen api owner repo pr st2 of
            (False, st3) \<Rightarrow> (Inr (), inc_skipped st3)
          | (True, st3) \<Rightarrow>
              (case approvePullRequest api owner repo (number pr) st3 of
                 (Inl err, st4) \<Rightarrow> (Inl err, st4)
               | (Inr _, st4) \<Rightarrow> (Inr (), inc_approved st4))))"
  using assms by (simp add: triage_pr_def invoke_def)

subsection \<open>Branch freshness\<close>

text \<open>
  Claim C1 says that a pull request whose fresh state is \<^verbatim>\<open>behind\<close> or \<^verbatim>\<open>blocked\<close> gets one
  update-branch request and no status query and no review call in the same pass, whether
  the update-branch request succeeds or is rejected. That fails when the request is
  rejected: \<open>syncBranchIfBehind\<close> then returns \<^verbatim>\<open>false\<close>, and the loop goes on to step (C).
  In the run below the pull request is behind, the update-branch request is rejected with
  status 422, and the same pass queries the status, lists the reviews, creates an approval
  and counts the pull request as approved.
\<close>

theorem behind_rejected_counterexample:
  "fst (pulls_get api_behind_rejected ''o'' ''r'' 1 ()) = Inr (pr_details 1 ''abc'' ''behind'') \<and>
   mergeable_state (pr_details 1 ''abc'' ''behind'') = Some ''behind'' \<and>
   calls (main api_behind_rejected [''o/r''] ()) =
     [OrgsGet ''o'', PullsList ''o'' ''r'', PullsGet ''o'' ''r'' 1,
      UpdateBranch ''o'' ''r'' 1 ''abc'',
      GetCombinedStatusForRef ''o'' ''r'' ''abc'',
      UsersGetAuthenticated, PullsListReviews ''o'' ''r'' 1,
      PullsCreateReview ''o'' ''r'' 1 ''APPROVE'' ''''] \<and>
   stats (main api_behind_rejected [''o/r''] ()) =
     \<lparr>approved = 1, skipped = 0, updated = 0, saml_blocked = 0\<rparr>"
  by (simp add: run_defs example_defs api_behind_rejected_def)

text \<open>
  Claim C1, amended. For every pull request whose freshly fetched state is \<^verbatim>\<open>behind\<close> or
  \<^verbatim>\<open>blocked\<close>, one pass issues exactly one update-branch request, with
  \<^verbatim>\<open>expected_head_sha\<close> set to the head SHA of the fresh fetch. When that request is accepted,
  the pass ends there: its requests are the fetch and the update, no status query and no
  review call, and the pull request is counted as updated. When the request is rejected, the
  pass goes on to the status query for the pull request.
\<close>

theorem triage_pr_outdated:
  assumes "pulls_get api owner repo (number pr) (remote st) = (Inr d, s1)"
    and "mergeable_state d \<in> {Some ''behind'', Some ''blocked''}"
  shows "filter is_update_branch (new_calls st (snd (triage_pr api owner repo pr st))) =
           [UpdateBranch owner repo (number d) (head_sha d)] \<and>
         (\<forall>s2. update_branch api owner repo (number d) (head_sha d) s1 = (Inr (), s2) \<longrightarrow>
            triage_pr api owner repo pr st =
              (Inr (),
               st\<lparr>stats := (stats st)\<lparr>updated := updated (stats st) + 1\<rparr>,
                  calls := calls st @
                    [PullsGet owner repo (number pr),
                     UpdateBranch owner repo (number d) (head_sha d)],
                  remote := s2\<rparr>)) \<and>
         (\<forall>err s2. update_branch api owner repo (number d) (head_sha d) s1 = (Inl err, s2) \<longrightarrow>
            take 3 (new_calls st (snd (triage_pr api owner repo pr st))) =
              [PullsGet owner repo (number pr),
               UpdateBranch owner repo (number d) (head_sha d),
               GetCombinedStatusForRef owner repo (head_sha pr)])"
proof -
  let ?st1 = "st\<lparr>calls := calls st @ [PullsGet owner repo (number pr)], remote := s1\<rparr>"
  let ?up = "UpdateBranch owner repo (number d) (head_sha d)"
  have out: "is_outdated d"
    using assms(2) by (auto simp add: is_outdated_def outdatedStates_def)
  obtain b st2 where sync: "syncBranchIfBehind api owner repo d ?st1 = (b, st2)"
    by (cases "syncBranchIfBehind api owner repo d ?st1")
  have c2: "calls st2 = calls st @ [PullsGet owner repo (number pr), ?up]"
    using calls_syncBranchIfBehind [of api owner repo d ?st1] sync out by simp
  obtain g st3 where green: "isPullRequestGreen api owner repo pr st2 = (g, st3)"
    by (cases "isPullRequestGreen api owner repo pr st2")
  have c3: "calls st3 = calls st @ [PullsGet owner repo (number pr), ?up,
      GetCombinedStatusForRef owner repo (head_sha pr)]"
    using calls_isPullRequestGreen [of api owner repo pr st2] green c2 by simp
  obtain r st4 where appr: "approvePullRequest api owner repo (number pr) st3 = (r, st4)"
    by (cases "approvePullRequest api owner repo (number pr) st3")
  obtain xs where c4: "calls st4 = calls st3 @ xs"
    and xs: "xs \<in> {[UsersGetAuthenticated],
           [UsersGetAuthenticated, PullsListReviews owner repo (number pr)],
           [UsersGetAuthenticated, PullsListReviews owner repo (number pr),
            PullsCreateReview owner repo (number pr) ''APPROVE'' '''']}"
    using calls_approvePullRequest [of api owner repo "number pr" st3] appr by auto
  have nu: "filter is_update_branch xs = []"
    using xs by auto
  have t: "triage_pr api owner repo pr st =
      (if b then (Inr (), inc_updated st2)
       else if \<not> g then (Inr (), inc_skipped st3)
       else (case r of Inl err \<Rightarrow> (Inl err, st4) | Inr _ \<Rightarrow> (Inr (), inc_approved st4)))"
    using triage_pr_after_fetch [OF assms(1)] sync green appr
    by (simp split: bool.splits)
  have first: "filter is_update_branch (new_calls st (snd (triage_pr api owner repo pr st))) = [?up]"
    using t c2 c3 c4 nu
    by (simp add: new_calls_def inc_updated_def inc_skipped_def inc_approved_def split: sum.splits)
  have second: "\<forall>s2. update_branch api owner repo (number d) (head_sha d) s1 = (Inr (), s2) \<longrightarrow>
            triage_pr api owner repo pr st =
              (Inr (),
               st\<lparr>stats := (stats st)\<lparr>updated := updated (stats st) + 1\<rparr>,
                  calls := calls st @ [PullsGet owner repo (number pr), ?up],
                  remote := s2\<rparr>)"
    using assms(1) out
    by (simp add: triage_pr_def invoke_def syncBranchIfBehind_def inc_updated_def)
  have third: "\<forall>err s2. update_branch api owner repo (number d) (head_sha d) s1 = (Inl err, s2) \<longrightarrow>
            take 3 (new_calls st (snd (triage_pr api owner repo pr st))) =
              [PullsGet owner repo (number pr), ?up,
               GetCombinedStatusForRef owner repo (head_sha pr)]"
  proof (intro allI impI)
    fix err s2
    assume rej: "update_branch api owner repo (number d) (head_sha d) s1 = (Inl err, s2)"
    have "\<not> b"
      using sync out rej by (auto simp add: syncBranchIfBehind_def invoke_def)
    then show "take 3 (new_calls st (snd (triage_pr api owner repo pr st))) =
              [PullsGet owner repo (number pr), ?up,
               GetCombinedStatusForRef owner repo (head_sha pr)]"
      using t c3 c4
      by (simp add: new_calls_def inc_skipped_def inc_approved_def split: sum.splits)
  qed
  from first second third show ?thesis by blast
qed

text \<open>
  The amended claim on the two runs above: the accepted request ends the pass after two
  requests; the rejected one is followed by the status query.
\<close>

theorem triage_pr_outdated_witness:
  "fst (pulls_get api_behind_accepted ''o'' ''r'' 1 ()) = Inr (pr_details 1 ''abc'' ''behind'') \<and>
   mergeable_state (pr_details 1 ''abc'' ''behind'') \<in> {Some ''behind'', Some ''blocked''} \<and>
   triage_pr api_behind_accepted ''o'' ''r'' (pr_item 1 ''abc'') (initial_state ()) =
     (Inr (),
      (initial_state ())
        \<lparr>stats := \<lparr>approved = 0, skipped = 0, updated = 1, saml_blocked = 0\<rparr>,
         calls := [PullsGet ''o'' ''r'' 1, UpdateBranch ''o'' ''r'' 1 ''abc'']\<rparr>) \<and>
   take 3 (new_calls (initial_state ())
       (snd (triage_pr api_behind_rejected ''o'' ''r'' (pr_item 1 ''abc'') (initial_state ())))) =
     [PullsGet ''o'' ''r'' 1, UpdateBranch ''o'' ''r'' 1 ''abc'',
      GetCombinedStatusForRef ''o'' ''r'' ''abc'']"
  using triage_pr_outdated [of api_behind_accepted "''o''" "''r''" "pr_item 1 ''abc''"
      "initial_state ()" "pr_details 1 ''abc'' ''behind''" "()"]
    triage_pr_outdated [of api_behind_rejected "''o''" "''r''" "pr_item 1 ''abc''"
      "initial_state ()" "pr_details 1 ''abc'' ''behind''" "()"]
  by (simp add: api_behind_accepted_def api_behind_rejected_def example_defs initial_state_def)

subsection \<open>Which commit the readiness check looks at\<close>

text \<open>
  Claim C10. For every pull request that reaches the CI readiness step (the fresh fetch
  succeeded and \<open>syncBranchIfBehind\<close> returned \<^verbatim>\<open>false\<close>), the pass issues exactly one
  combined-status query, and its ref is the head SHA of the item from the list of open pull
  requests, whatever the head SHA of the freshly fetched details is. The approval step is
  entered exactly when that query answers \<^verbatim>\<open>"success"\<close>: if the head moved between the two
  fetches, readiness and approval are decided for the older SHA.
\<close>

theorem status_query_uses_listed_sha:
  assumes "pulls_get api owner repo (number pr) (remote st) = (Inr d, s1)"
    and "syncBranchIfBehind api owner repo d
           (st\<lparr>calls := calls st @ [PullsGet owner repo (number pr)], remote := s1\<rparr>) = (False, st2)"
  shows "filter is_status_query (new_calls st (snd (triage_pr api owner repo pr st))) =
           [GetCombinedStatusForRef owner repo (head_sha pr)] \<and>
         (UsersGetAuthenticated \<in> set (new_calls st (snd (triage_pr api owner repo pr st)))) =
           (fst (getCombinedStatusForRef api owner repo (head_sha pr) (remote st2)) = Inr ''success'')"
proof -
  let ?st1 = "st\<lparr>calls := calls st @ [PullsGet owner repo (number pr)], remote := s1\<rparr>"
  let ?sync = "if is_outdated d then [UpdateBranch owner repo (number d) (head_sha d)] else []"
  let ?q = "GetCombinedStatusForRef owner repo (head_sha pr)"
  have c2: "calls st2 = calls st @ PullsGet owner repo (number pr) # ?sync"
    using calls_syncBranchIfBehind [of api owner repo d ?st1] assms(2) by simp
  obtain g st3 where green: "isPullRequestGreen api owner repo pr st2 = (g, st3)"
    by (cases "isPullRequestGreen api owner repo pr st2")
  have g: "g = (fst (getCombinedStatusForRef api owner repo (head_sha pr) (remote st2)) = Inr ''success'')"
    using green by (auto simp add: isPullRequestGreen_def invoke_def split: prod.splits sum.splits)
  have c3: "calls st3 = calls st @ PullsGet owner repo (number pr) # ?sync @ [?q]"
    using calls_isPullRequestGreen [of api owner repo pr st2] green c2 by simp
  obtain r st4 where appr: "approvePullRequest api owner repo (number pr) st3 = (r, st4)"
    by (cases "approvePullRequest api owner repo (number pr) st3")
  obtain xs where c4: "calls st4 = calls st3 @ xs"
    and xs: "xs \<in> {[UsersGetAuthenticated],
           [UsersGetAuthenticated, PullsListReviews owner repo (number pr)],
           [UsersGetAuthenticated, PullsListReviews owner repo (number pr),
            PullsCreateReview owner repo (number pr) ''APPROVE'' '''']}"
    using calls_approvePullRequest [of api owner repo "number pr" st3] appr by auto
  have nq: "filter is_status_query xs = []" and uga: "UsersGetAuthenticated \<in> set xs"
    using xs by auto
  have t: "triage_pr api owner repo pr st =
      (if \<not> g then (Inr (), inc_skipped st3)
       else (case r of Inl err \<Rightarrow> (Inl err, st4) | Inr _ \<Rightarrow> (Inr (), inc_approved st4)))"
    using triage_pr_after_fetch [OF assms(1)] assms(2) green appr
    by (simp split: bool.splits)
  have n: "new_calls st (snd (triage_pr api owner repo pr st)) =
      PullsGet owner repo (number pr) # ?sync @ [?q] @ (if g then xs else [])"
    using t c3 c4
    by (simp add: new_calls_def inc_skipped_def inc_approved_def split: sum.splits)
  show ?thesis
    unfolding n using nq uga g by simp
qed

text \<open>
  A run in which the head moved: the list says \<^verbatim>\<open>old\<close>, the fresh details say \<^verbatim>\<open>new\<close>, and
  \<^verbatim>\<open>new\<close> is still pending. The status of \<^verbatim>\<open>old\<close> is queried and the approval step is entered.
\<close>

theorem status_query_uses_listed_sha_witness:
  "head_sha (pr_item 1 ''old'') \<noteq> head_sha (pr_details 1 ''new'' ''clean'') \<and>
   fst (pulls_get api_head_moved ''o'' ''r'' 1 ()) = Inr (pr_details 1 ''new'' ''clean'') \<and>
   filter is_status_query (new_calls (initial_state ())
       (snd (triage_pr api_head_moved ''o'' ''r'' (pr_item 1 ''old'') (initial_state ())))) =
     [GetCombinedStatusForRef ''o'' ''r'' ''old''] \<and>
   UsersGetAuthenticated \<in> set (new_calls (initial_state ())
       (snd (triage_pr api_head_moved ''o'' ''r'' (pr_item 1 ''old'') (initial_state ())))) \<and>
   fst (getCombinedStatusForRef api_head_moved ''o'' ''r'' ''new'' ()) = Inr ''pending''"
  using status_query_uses_listed_sha [of api_head_moved "''o''" "''r''" "pr_item 1 ''old''"
      "initial_state ()" "pr_details 1 ''new'' ''clean''" "()"
      "(initial_state ())\<lparr>calls := [PullsGet ''o'' ''r'' 1]\<rparr>"]
  by (simp add: api_head_moved_def example_defs initial_state_def syncBranchIfBehind_def
      is_outdated_def outdatedStates_def)

subsection \<open>Approval\<close>

lemma alreadyApproved_found:
  "\<exists>r \<in> set reviews. review_user_login r = Some login \<and> review_state r = ''APPROVED'' \<Longrightarrow>
   alreadyApproved login reviews \<noteq> Inr False"
  by (induction reviews) (auto split: option.splits)

lemma alreadyApproved_none:
  "\<forall>r \<in> set reviews. review_user_login r \<noteq> None \<Longrightarrow>
   \<not> (\<exists>r \<in> set reviews. review_user_login r = Some login \<and> review_state r = ''APPROVED'') \<Longrightarrow>
   alreadyApproved login reviews = Inr False"
  by (induction reviews) (auto split: option.splits)

text \<open>
  Claim C4. For every pull request whose review list contains a review authored by the
  acting identity with state \<^verbatim>\<open>APPROVED\<close>, \<open>approvePullRequest\<close> sends the identity lookup
  and the listing and nothing else: it creates no review. This holds whether the function
  returns or throws on a review without an author that comes before the approval. A second
  run on a pull request approved in a first run therefore creates no further review, as
  the run against the recording remote system below shows.
\<close>

theorem approvePullRequest_idempotent:
  assumes "users_getAuthenticated api (remote st) = (Inr login, s1)"
    and "pulls_listReviews api owner repo n s1 = (Inr reviews, s2)"
    and "\<exists>r \<in> set reviews. review_user_login r = Some login \<and> review_state r = ''APPROVED''"
  shows "new_calls st (snd (approvePullRequest api owner repo n st)) =
           [UsersGetAuthenticated, PullsListReviews owner repo n] \<and>
         filter is_create_review (new_calls st (snd (approvePullRequest api owner repo n st))) = []"
proof -
  have "alreadyApproved login reviews \<noteq> Inr False"
    using assms(3) by (rule alreadyApproved_found)
  then have "new_calls st (snd (approvePullRequest api owner repo n st)) =
           [UsersGetAuthenticated, PullsListReviews owner repo n]"
    using assms(1) assms(2)
    by (auto simp add: approvePullRequest_def invoke_def new_calls_def
        split: sum.splits bool.splits)
  then show ?thesis by simp
qed

text \<open>
  Two runs in succession against the remote system that records reviews: the first creates
  the approval, the second finds it and creates nothing. And a run on a list in which a
  review without an author comes before the approval: it throws, and creates nothing.
\<close>

theorem approvePullRequest_idempotent_witness:
  "new_calls (initial_state []) (snd (approvePullRequest recording_api ''o'' ''r'' 7 (initial_state [])))
     = [UsersGetAuthenticated, PullsListReviews ''o'' ''r'' 7,
        PullsCreateReview ''o'' ''r'' 7 ''APPROVE'' ''''] \<and>
   remote (snd (approvePullRequest recording_api ''o'' ''r'' 7 (initial_state [])))
     = [\<lparr>review_user_login = Some ''me'', review_state = ''APPROVED''\<rparr>] \<and>
   new_calls (snd (approvePullRequest recording_api ''o'' ''r'' 7 (initial_state [])))
     (snd (approvePullRequest recording_api ''o'' ''r'' 7
        (snd (approvePullRequest recording_api ''o'' ''r'' 7 (initial_state [])))))
     = [UsersGetAuthenticated, PullsListReviews ''o'' ''r'' 7] \<and>
   approvePullRequest api_ghost_then_approved ''o'' ''r'' 7 (initial_state ()) =
     (Inl type_error,
      (initial_state ())\<lparr>calls := [UsersGetAuthenticated, PullsListReviews ''o'' ''r'' 7]\<rparr>)"
  using approvePullRequest_idempotent [where api = recording_api
      and st = "snd (approvePullRequest recording_api ''o'' ''r'' 7 (initial_state []))"
      and login = "''me''"
      and ?s1.0 = "[\<lparr>review_user_login = Some ''me'', review_state = ''APPROVED''\<rparr>]"
      and owner = "''o''" and repo = "''r''" and n = 7
      and reviews = "[\<lparr>review_user_login = Some ''me'', review_state = ''APPROVED''\<rparr>]"
      and ?s2.0 = "[\<lparr>review_user_login = Some ''me'', review_state = ''APPROVED''\<rparr>]"]
    approvePullRequest_idempotent [where api = api_ghost_then_approved
      and st = "initial_state ()" and login = "''me''" and ?s1.0 = "()"
      and owner = "''o''" and repo = "''r''" and n = 7
      and reviews = "[\<lparr>review_user_login = None, review_state = ''COMMENTED''\<rparr>,
                     \<lparr>review_user_login = Some ''me'', review_state = ''APPROVED''\<rparr>]"
      and ?s2.0 = "()"]
  by (simp add: recording_api_def api_ghost_then_approved_def quiet_api_def
      approvePullRequest_def invoke_def initial_state_def new_calls_def)

text \<open>
  Claim C9 says that a Dependabot pull request whose fresh state is neither \<^verbatim>\<open>behind\<close> nor
  \<^verbatim>\<open>blocked\<close>, whose combined status is \<^verbatim>\<open>"success"\<close> and which has no \<^verbatim>\<open>APPROVED\<close> review
  by the acting identity is approved by the pass, with exactly one create-review request.
  Three runs on such a pull request end otherwise, each with one skip and no approval
  counted. In the first the review list holds a comment whose author is null: reading the
  author's login throws, and no review is created. In the second the create-review request
  is sent and rejected. In the third the identity lookup fails, and no review is created.
\<close>

theorem green_unapproved_counterexample:
  "fst (pulls_get api_ghost_review ''o'' ''r'' 1 ()) = Inr (pr_details 1 ''abc'' ''clean'') \<and>
   fst (getCombinedStatusForRef api_ghost_review ''o'' ''r'' ''abc'' ()) = Inr ''success'' \<and>
   fst (pulls_listReviews api_ghost_review ''o'' ''r'' 1 ()) =
     Inr [\<lparr>review_user_login = None, review_state = ''COMMENTED''\<rparr>] \<and>
   calls (main api_ghost_review [''o/r''] ()) =
     [OrgsGet ''o'', PullsList ''o'' ''r'', PullsGet ''o'' ''r'' 1,
      GetCombinedStatusForRef ''o'' ''r'' ''abc'',
      UsersGetAuthenticated, PullsListReviews ''o'' ''r'' 1] \<and>
   stats (main api_ghost_review [''o/r''] ()) =
     \<lparr>approved = 0, skipped = 1, updated = 0, saml_blocked = 0\<rparr> \<and>
   fst (pulls_listReviews api_create_rejected ''o'' ''r'' 1 ()) = Inr [] \<and>
   calls (main api_create_rejected [''o/r''] ()) =
     [OrgsGet ''o'', PullsList ''o'' ''r'', PullsGet ''o'' ''r'' 1,
      GetCombinedStatusForRef ''o'' ''r'' ''abc'',
      UsersGetAuthenticated, PullsListReviews ''o'' ''r'' 1,
      PullsCreateReview ''o'' ''r'' 1 ''APPROVE'' ''''] \<and>
   stats (main api_create_rejected [''o/r''] ()) =
     \<lparr>approved = 0, skipped = 1, updated = 0, saml_blocked = 0\<rparr> \<and>
   fst (pulls_listReviews api_identity_fails ''o'' ''r'' 1 ()) = Inr [] \<and>
   calls (main api_identity_fails [''o/r''] ()) =
     [OrgsGet ''o'', PullsList ''o'' ''r'', PullsGet ''o'' ''r'' 1,
      GetCombinedStatusForRef ''o'' ''r'' ''abc'', UsersGetAuthenticated] \<and>
   stats (main api_identity_fails [''o/r''] ()) =
     \<lparr>approved = 0, skipped = 1, updated = 0, saml_blocked = 0\<rparr>"
  by (simp add: run_defs example_defs api_green_def api_ghost_review_def api_create_rejected_def
      api_identity_fails_def type_error_def)

text \<open>
  Claim C9, amended. For every Dependabot pull request whose fresh state is neither
  \<^verbatim>\<open>behind\<close> nor \<^verbatim>\<open>blocked\<close> and whose combined status is \<^verbatim>\<open>"success"\<close>, when the identity
  lookup and the review listing return and the list, every review of which has an author,
  holds no \<^verbatim>\<open>APPROVED\<close> review by the acting identity, the pass issues exactly one
  create-review request, with event \<^verbatim>\<open>APPROVE\<close> and the empty string as body. When that
  request is accepted the pull request is counted as approved; when it is rejected the
  error leaves the pass for the \<^verbatim>\<open>catch\<close> of the repository and no approval is counted.
\<close>

theorem triage_pr_green_unapproved:
  assumes "pulls_get api owner repo (number pr) (remote st) = (Inr d, s1)"
    and "mergeable_state d \<notin> {Some ''behind'', Some ''blocked''}"
    and "getCombinedStatusForRef api owner repo (head_sha pr) s1 = (Inr ''success'', s2)"
    and "users_getAuthenticated api s2 = (Inr login, s3)"
    and "pulls_listReviews api owner repo (number pr) s3 = (Inr reviews, s4)"
    and "\<forall>r \<in> set reviews. review_user_login r \<noteq> None"
    and "\<not> (\<exists>r \<in> set reviews. review_user_login r = Some login \<and> review_state r = ''APPROVED'')"
  shows "new_calls st (snd (triage_pr api owner repo pr st)) =
           [PullsGet owner repo (number pr),
            GetCombinedStatusForRef owner repo (head_sha pr),
            UsersGetAuthenticated,
            PullsListReviews owner repo (number pr),
            PullsCreateReview owner repo (number pr) ''APPROVE'' ''''] \<and>
         (\<forall>s5. pulls_createReview api owner repo (number pr) ''APPROVE'' '''' s4 = (Inr (), s5) \<longrightarrow>
            triage_pr api owner repo pr st =
              (Inr (),
               st\<lparr>stats := (stats st)\<lparr>approved := approved (stats st) + 1\<rparr>,
                  calls := calls st @
                    [PullsGet owner repo (number pr),
                     GetCombinedStatusForRef owner repo (head_sha pr),
                     UsersGetAuthenticated,
                     PullsListReviews owner repo (number pr),
                     PullsCreateReview owner repo (number pr) ''APPROVE'' ''''],
                  remote := s5\<rparr>)) \<and>
         (\<forall>err s5. pulls_createReview api owner repo (number pr) ''APPROVE'' '''' s4 = (Inl err, s5) \<longrightarrow>
            triage_pr api owner repo pr st =
              (Inl err,
               st\<lparr>calls := calls st @
                    [PullsGet owner repo (number pr),
                     GetCombinedStatusForRef owner repo (head_sha pr),
                     UsersGetAuthenticated,
                     PullsListReviews owner repo (number pr),
                     PullsCreateReview owner repo (number pr) ''APPROVE'' ''''],
                  remote := s5\<rparr>))"
proof -
  have out: "\<not> is_outdated d"
    using assms(2) by (auto simp add: is_outdated_def outdatedStates_def split: option.splits)
  have no: "alreadyApproved login reviews = Inr False"
    using assms(6) assms(7) by (rule alreadyApproved_none)
  obtain c s5 where cr: "pulls_createReview api owner repo (number pr) ''APPROVE'' '''' s4 = (c, s5)"
    by (cases "pulls_createReview api owner repo (number pr) ''APPROVE'' '''' s4")
  show ?thesis
    using out no cr assms(1) assms(3) assms(4) assms(5)
    by (cases c)
      (simp_all add: triage_pr_def invoke_def syncBranchIfBehind_def isPullRequestGreen_def
        approvePullRequest_def inc_approved_def new_calls_def)
qed

text \<open>
  The amended claim on two runs: against the recording remote system the review is created
  and the pull request counted; with the create-review request rejected, the request is
  sent once and the error leaves the pass.
\<close>

theorem triage_pr_green_unapproved_witness:
  "is_dependabot (pr_item 7 ''c0ffee'') \<and>
   triage_pr recording_api ''o'' ''r'' (pr_item 7 ''c0ffee'') (initial_state []) =
     (Inr (),
      \<lparr>stats = \<lparr>approved = 1, skipped = 0, updated = 0, saml_blocked = 0\<rparr>,
       orgAccessCache = Map.empty,
       calls = [PullsGet ''o'' ''r'' 7, GetCombinedStatusForRef ''o'' ''r'' ''c0ffee'',
                UsersGetAuthenticated, PullsListReviews ''o'' ''r'' 7,
                PullsCreateReview ''o'' ''r'' 7 ''APPROVE'' ''''],
       remote = [\<lparr>review_user_login = Some ''me'', review_state = ''APPROVED''\<rparr>]\<rparr>) \<and>
   triage_pr api_create_rejected ''o'' ''r'' (pr_item 1 ''abc'') (initial_state ()) =
     (Inl (http_error 422),
      (initial_state ())
        \<lparr>calls := [PullsGet ''o'' ''r'' 1, GetCombinedStatusForRef ''o'' ''r'' ''abc'',
                   UsersGetAuthenticated, PullsListReviews ''o'' ''r'' 1,
                   PullsCreateReview ''o'' ''r'' 1 ''APPROVE'' '''']\<rparr>)"
  using triage_pr_green_unapproved [where api = recording_api and owner = "''o''" and repo = "''r''"
      and pr = "pr_item 7 ''c0ffee''" and st = "initial_state []"
      and d = "pr_details 7 ''c0ffee'' ''clean''" and ?s1.0 = "[]" and ?s2.0 = "[]"
      and login = "''me''" and ?s3.0 = "[]" and reviews = "[]" and ?s4.0 = "[]"]
    triage_pr_green_unapproved [where api = api_create_rejected and owner = "''o''" and repo = "''r''"
      and pr = "pr_item 1 ''abc''" and st = "initial_state ()"
      and d = "pr_details 1 ''abc'' ''clean''" and ?s1.0 = "()" and ?s2.0 = "()"
      and login = "''me''" and ?s3.0 = "()" and reviews = "[]" and ?s4.0 = "()"]
  by (simp add: recording_api_def api_create_rejected_def api_green_def example_defs
      initial_state_def is_dependabot_def toLowerCase_def lower_char_def)

subsection \<open>The work after the access decision\<close>

lemma stats_le_refl [simp]: "stats_le a a"
  by (simp add: stats_le_def)

lemma stats_le_trans: "stats_le a b \<Longrightarrow> stats_le b c \<Longrightarrow> stats_le a c"
  by (auto simp add: stats_le_def)

lemma quiet_step_refl [simp]: "quiet_step st st"
  by (simp add: quiet_step_def)

lemma quiet_step_trans: "quiet_step a b \<Longrightarrow> quiet_step b c \<Longrightarrow> quiet_step a c"
  unfolding quiet_step_def
  by (auto intro: stats_le_trans)

lemma quiet_invoke:
  "\<not> is_probe c \<Longrightarrow> invoke c f st = (r, st') \<Longrightarrow> quiet_step st st'"
  by (auto simp add: invoke_def quiet_step_def split: prod.splits)

lemma quiet_inc [simp]:
  "quiet_step st (inc_approved st)" "quiet_step st (inc_skipped st)"
  "quiet_step st (inc_updated st)" "quiet_step st (inc_saml_blocked st)"
  by (simp_all add: quiet_step_def stats_le_def inc_approved_def inc_skipped_def inc_updated_def
      inc_saml_blocked_def)

lemma quiet_then_inc:
  "quiet_step st st' \<Longrightarrow> quiet_step st (inc_approved st')"
  "quiet_step st st' \<Longrightarrow> quiet_step st (inc_skipped st')"
  "quiet_step st st' \<Longrightarrow> quiet_step st (inc_updated st')"
  "quiet_step st st' \<Longrightarrow> quiet_step st (inc_saml_blocked st')"
  by (erule quiet_step_trans, simp)+

lemma quiet_isPullRequestGreen:
  "isPullRequestGreen api owner repo pr st = (g, st') \<Longrightarrow> quiet_step st st'"
  by (auto simp add: isPullRequestGreen_def split: prod.splits sum.splits
      dest!: quiet_invoke [rotated])

lemma quiet_syncBranchIfBehind:
  "syncBranchIfBehind api owner repo pr st = (b, st') \<Longrightarrow> quiet_step st st'"
  by (auto simp add: syncBranchIfBehind_def split: prod.splits sum.splits if_splits
      dest!: quiet_invoke [rotated])

lemma quiet_approvePullRequest:
  "approvePullRequest api owner repo n st = (r, st') \<Longrightarrow> quiet_step st st'"
  unfolding approvePullRequest_def
  by (auto split: prod.splits sum.splits bool.splits dest!: quiet_invoke [rotated]
      intro: quiet_step_trans)

lemma quiet_triage_pr:
  assumes "triage_pr api owner repo pr st = (r, st')"
  shows "quiet_step st st'"
proof -
  obtain r1 st1 where get: "invoke (PullsGet owner repo (number pr))
       (pulls_get api owner repo (number pr)) st = (r1, st1)"
    by (cases "invoke (PullsGet owner repo (number pr)) (pulls_get api owner repo (number pr)) st")
  have q1: "quiet_step st st1"
    using quiet_invoke [OF _ get] by simp
  show ?thesis
  proof (cases r1)
    case (Inl err)
    then show ?thesis using assms get q1 by (simp add: triage_pr_def)
  next
    case (Inr d)
    obtain b st2 where sync: "syncBranchIfBehind api owner repo d st1 = (b, st2)"
      by (cases "syncBranchIfBehind api owner repo d st1")
    have q2: "quiet_step st st2"
      using q1 quiet_syncBranchIfBehind [OF sync] by (rule quiet_step_trans)
    obtain g st3 where green: "isPullRequestGreen api owner repo pr st2 = (g, st3)"
      by (cases "isPullRequestGreen api owner repo pr st2")
    have q3: "quiet_step st st3"
      using q2 quiet_isPullRequestGreen [OF green] by (rule quiet_step_trans)
    obtain a st4 where appr: "approvePullRequest api owner repo (number pr) st3 = (a, st4)"
      by (cases "approvePullRequest api owner repo (number pr) st3")
    have q4: "quiet_step st st4"
      using q3 quiet_approvePullRequest [OF appr] by (rule quiet_step_trans)
    show ?thesis
      using assms get Inr sync green appr q2 q3 q4
      by (auto simp add: triage_pr_def quiet_then_inc split: bool.splits sum.splits if_splits)
  qed
qed

lemma quiet_triage_prs:
  "triage_prs api owner repo prs st = (r, st') \<Longrightarrow> quiet_step st st'"
proof (induction prs arbitrary: st)
  case Nil
  then show ?case by simp
next
  case (Cons pr prs)
  obtain r1 st1 where one: "triage_pr api owner repo pr st = (r1, st1)"
    by (cases "triage_pr api owner repo pr st")
  have q1: "quiet_step st st1"
    using one by (rule quiet_triage_pr)
  show ?case
  proof (cases r1)
    case (Inl err)
    then show ?thesis using Cons.prems one q1 by simp
  next
    case (Inr u)
    then have "triage_prs api owner repo prs st1 = (r, st')"
      using Cons.prems one by simp
    then have "quiet_step st1 st'" by (rule Cons.IH)
    with q1 show ?thesis by (rule quiet_step_trans)
  qed
qed

lemma quiet_catch_repo: "quiet_step st (catch_repo err st)"
  by (simp add: catch_repo_def)

lemma quiet_try_repo: "quiet_step st (try_repo api owner repo st)"
proof -
  obtain r1 st1 where lst: "invoke (PullsList owner repo) (pulls_list api owner repo) st = (r1, st1)"
    by (cases "invoke (PullsList owner repo) (pulls_list api owner repo) st")
  have q1: "quiet_step st st1"
    using quiet_invoke [OF _ lst] by simp
  show ?thesis
  proof (cases r1)
    case (Inl err)
    then show ?thesis
      using lst quiet_step_trans [OF q1 quiet_catch_repo] by (simp add: try_repo_def)
  next
    case (Inr prs)
    obtain r2 st2 where tr: "triage_prs api owner repo (filter is_dependabot prs) st1 = (r2, st2)"
      by (cases "triage_prs api owner repo (filter is_dependabot prs) st1")
    have q2: "quiet_step st st2"
      using q1 quiet_triage_prs [OF tr] by (rule quiet_step_trans)
    show ?thesis
      using lst Inr tr q1 q2 quiet_step_trans [OF q2 quiet_catch_repo]
      by (simp add: try_repo_def Let_def split: sum.splits)
  qed
qed

lemma quiet_step_probe_inv:
  assumes "quiet_step st st'" and "probe_inv org st"
  shows "probe_inv org st'"
proof -
  obtain xs where c: "calls st' = calls st @ xs" and n: "\<forall>c \<in> set xs. \<not> is_probe c"
    and m: "orgAccessCache st' = orgAccessCache st"
    using assms(1) by (auto simp add: quiet_step_def)
  have "OrgsGet org \<notin> set xs" using n by auto
  then have "count_list xs (OrgsGet org) = 0" by (simp add: count_list_0_iff)
  then show ?thesis using assms(2) c m by (simp add: probe_inv_def)
qed

subsection \<open>The access cache\<close>

lemma cached_access_hit:
  "orgAccessCache st owner = Some ai \<Longrightarrow> cached_access api owner st = (ai, st)"
  by (simp add: cached_access_def)

lemma cached_access_miss:
  assumes "orgAccessCache st owner = None"
  shows "\<exists>s'. cached_access api owner st =
           (fst (checkSAMLAccess api owner st),
            st\<lparr>calls := calls st @ [OrgsGet owner], remote := s',
               orgAccessCache := (orgAccessCache st)(owner \<mapsto> fst (checkSAMLAccess api owner st))\<rparr>)"
  using assms
  by (auto simp add: cached_access_def checkSAMLAccess_def invoke_def split: prod.splits sum.splits)

lemma cached_access_probe_inv:
  assumes "probe_inv org st"
  shows "probe_inv org (snd (cached_access api owner st))"
proof (cases "orgAccessCache st owner")
  case None
  obtain s' where "cached_access api owner st =
           (fst (checkSAMLAccess api owner st),
            st\<lparr>calls := calls st @ [OrgsGet owner], remote := s',
               orgAccessCache := (orgAccessCache st)(owner \<mapsto> fst (checkSAMLAccess api owner st))\<rparr>)"
    using cached_access_miss [OF None] by blast
  then show ?thesis
    using assms None by (auto simp add: probe_inv_def split: option.splits)
next
  case (Some ai)
  then show ?thesis using assms by (simp add: cached_access_hit)
qed

lemma cached_access_stats: "stats (snd (cached_access api owner st)) = stats st"
  by (auto simp add: cached_access_def checkSAMLAccess_def invoke_def
      split: option.splits prod.splits sum.splits)

lemma cached_access_keeps:
  "orgAccessCache st org = Some ai \<Longrightarrow> orgAccessCache (snd (cached_access api owner st)) org = Some ai"
  by (auto simp add: cached_access_def checkSAMLAccess_def invoke_def
      split: option.splits prod.splits sum.splits)

text \<open>What one line of the repository list does after the access decision.\<close>

lemma process_repo_after_access:
  assumes "parse_full_name fullName = Some (owner, repo)"
  shows "quiet_step (snd (cached_access api owner st)) (process_repo api st fullName)"
proof -
  obtain ai st1 where acc: "cached_access api owner st = (ai, st1)"
    by (cases "cached_access api owner st")
  show ?thesis
    using assms acc quiet_try_repo [of st1 api owner repo]
    by (simp add: process_repo_def)
qed

lemma process_repo_probe_inv:
  assumes "probe_inv org st"
  shows "probe_inv org (process_repo api st fullName)"
proof (cases "parse_full_name fullName")
  case None
  then show ?thesis using assms by (simp add: process_repo_def)
next
  case (Some p)
  obtain owner repo where p: "p = (owner, repo)" by (cases p)
  show ?thesis
    using process_repo_after_access [of fullName owner repo api st] Some p
      cached_access_probe_inv [OF assms, of api owner]
    by (auto intro: quiet_step_probe_inv)
qed

lemma run_from_probe_inv:
  "probe_inv org st \<Longrightarrow> probe_inv org (run_from api st repos)"
  unfolding run_from_def
  by (induction repos arbitrary: st) (simp_all add: process_repo_probe_inv)

lemma process_repo_keeps:
  assumes "orgAccessCache st org = Some ai"
  shows "orgAccessCache (process_repo api st fullName) org = Some ai \<and>
         OrgsGet org \<notin> set (new_calls st (process_repo api st fullName))"
proof (cases "parse_full_name fullName")
  case None
  then show ?thesis using assms by (simp add: process_repo_def new_calls_def)
next
  case (Some p)
  obtain owner repo where p: "p = (owner, repo)" by (cases p)
  let ?st1 = "snd (cached_access api owner st)"
  have q: "quiet_step ?st1 (process_repo api st fullName)"
    using process_repo_after_access [of fullName owner repo api st] Some p by simp
  then obtain xs where xs: "calls (process_repo api st fullName) = calls ?st1 @ xs"
    and n: "\<forall>c \<in> set xs. \<not> is_probe c"
    and m: "orgAccessCache (process_repo api st fullName) = orgAccessCache ?st1"
    by (auto simp add: quiet_step_def)
  have k: "orgAccessCache ?st1 org = Some ai"
    using assms by (rule cached_access_keeps)
  have "\<exists>ys. calls ?st1 = calls st @ ys \<and> OrgsGet org \<notin> set ys"
  proof (cases "orgAccessCache st owner")
    case None
    then have "owner \<noteq> org" using assms by auto
    then show ?thesis using cached_access_miss [OF None, of api] by auto
  next
    case (Some a)
    then show ?thesis by (simp add: cached_access_hit)
  qed
  then obtain ys where ys: "calls ?st1 = calls st @ ys" and nys: "OrgsGet org \<notin> set ys"
    by blast
  have "OrgsGet org \<notin> set xs" using n by auto
  then show ?thesis using xs ys nys m k by (simp add: new_calls_def)
qed

text \<open>
  Claim C8. In every run and for every organization, the access probe is issued at most
  once. Once a decision for the organization is in the cache, every later line of the
  repository list leaves that decision as it is and issues no probe for the organization:
  the decision is reused and never invalidated within the run.
\<close>

theorem probe_at_most_once:
  "count_list (calls (main api repos s)) (OrgsGet org) \<le> 1 \<and>
   (\<forall>st fullName accessInfo.
      orgAccessCache st org = Some accessInfo \<longrightarrow>
      orgAccessCache (process_repo api st fullName) org = Some accessInfo \<and>
      OrgsGet org \<notin> set (new_calls st (process_repo api st fullName)))"
proof -
  have "probe_inv org (initial_state s)"
    by (simp add: probe_inv_def initial_state_def)
  then have "probe_inv org (main api repos s)"
    unfolding main_def by (rule run_from_probe_inv)
  then have "count_list (calls (main api repos s)) (OrgsGet org) \<le> 1"
    by (auto simp add: probe_inv_def split: option.splits)
  then show ?thesis
    using process_repo_keeps by blast
qed

theorem probe_at_most_once_witness:
  "count_list (calls (main quiet_api [''acme/a'', ''acme/b'', ''other/c''] ())) (OrgsGet ''acme'') = 1 \<and>
   orgAccessCache (main quiet_api [''acme/a''] ()) ''acme'' = Some \<lparr>hasAccess = True, error = None\<rparr> \<and>
   orgAccessCache (process_repo quiet_api (main quiet_api [''acme/a''] ()) ''acme/b'') ''acme''
     = Some \<lparr>hasAccess = True, error = None\<rparr> \<and>
   OrgsGet ''acme'' \<notin> set (new_calls (main quiet_api [''acme/a''] ())
     (process_repo quiet_api (main quiet_api [''acme/a''] ()) ''acme/b''))"
  using probe_at_most_once [of quiet_api "[''acme/a'', ''acme/b'', ''other/c'']" "()" "''acme''"]
  by (simp add: run_defs example_defs)

text \<open>
  Claim C6. For every repository line under an organization whose access probe returns
  \<^verbatim>\<open>forbidden\<close> (status 403), now or earlier in the run so that the blocked decision is in
  the cache, the line issues no request except the probe itself, and that only when the
  organization was not yet in the cache: no listing of pull requests, no status query, no
  review call. The counter of blocked repositories goes up by exactly one for the line and
  no other counter changes, and the cache holds the blocked decision afterwards.
\<close>

theorem blocked_org_repo:
  assumes "parse_full_name fullName = Some (owner, repo)"
    and "case orgAccessCache st owner of
           None \<Rightarrow> (\<exists>err. fst (orgs_get api owner (remote st)) = Inl err \<and> status err = Some 403)
         | Some accessInfo \<Rightarrow> \<not> hasAccess accessInfo"
  shows "new_calls st (process_repo api st fullName) =
           (if orgAccessCache st owner = None then [OrgsGet owner] else []) \<and>
         stats (process_repo api st fullName) =
           (stats st)\<lparr>saml_blocked := saml_blocked (stats st) + 1\<rparr> \<and>
         (\<exists>accessInfo. orgAccessCache (process_repo api st fullName) owner = Some accessInfo \<and>
            \<not> hasAccess accessInfo)"
proof (cases "orgAccessCache st owner")
  case None
  then obtain err where e: "fst (orgs_get api owner (remote st)) = Inl err" "status err = Some 403"
    using assms(2) by auto
  have d: "fst (checkSAMLAccess api owner st) =
      \<lparr>hasAccess = False, error = Some (saml_message owner)\<rparr>"
    using e by (auto simp add: checkSAMLAccess_def invoke_def split: prod.splits)
  obtain s' where "cached_access api owner st =
           (fst (checkSAMLAccess api owner st),
            st\<lparr>calls := calls st @ [OrgsGet owner], remote := s',
               orgAccessCache := (orgAccessCache st)(owner \<mapsto> fst (checkSAMLAccess api owner st))\<rparr>)"
    using cached_access_miss [OF None] by blast
  then show ?thesis
    using assms(1) None d by (simp add: process_repo_def inc_saml_blocked_def new_calls_def)
next
  case (Some ai)
  then show ?thesis
    using assms by (simp add: process_repo_def cached_access_hit inc_saml_blocked_def new_calls_def)
qed

text \<open>
  Two repositories under one organization that answers the probe with 403: the whole run
  issues the one probe, and the counter ends at two, one per repository.
\<close>

theorem blocked_org_repo_witness:
  "parse_full_name ''acme/a'' = Some (''acme'', ''a'') \<and>
   parse_full_name ''acme/b'' = Some (''acme'', ''b'') \<and>
   fst (orgs_get (api_probe_fails 403) ''acme'' ()) = Inl (http_error 403) \<and>
   calls (main (api_probe_fails 403) [''acme/a'', ''acme/b''] ()) = [OrgsGet ''acme''] \<and>
   stats (main (api_probe_fails 403) [''acme/a'', ''acme/b''] ()) =
     \<lparr>approved = 0, skipped = 0, updated = 0, saml_blocked = 2\<rparr>"
  using blocked_org_repo [where fullName = "''acme/a''" and owner = "''acme''" and repo = "''a''"
      and st = "initial_state ()" and api = "api_probe_fails 403"]
    blocked_org_repo [where fullName = "''acme/b''" and owner = "''acme''" and repo = "''b''"
      and st = "process_repo (api_probe_fails 403) (initial_state ()) ''acme/a''"
      and api = "api_probe_fails 403"]
  by (simp add: run_defs example_defs api_probe_fails_def)

subsection \<open>The counters of a run\<close>

lemma process_repo_stats_le: "stats_le (stats st) (stats (process_repo api st fullName))"
proof (cases "parse_full_name fullName")
  case None
  then show ?thesis by (simp add: process_repo_def)
next
  case (Some p)
  obtain owner repo where p: "p = (owner, repo)" by (cases p)
  show ?thesis
    using process_repo_after_access [of fullName owner repo api st] Some p
      cached_access_stats [of api owner st]
    by (simp add: quiet_step_def)
qed

lemma run_from_stats_le: "stats_le (stats st) (stats (run_from api st repos))"
  unfolding run_from_def
proof (induction repos arbitrary: st)
  case Nil
  show ?case by simp
next
  case (Cons l ls)
  show ?case
    using process_repo_stats_le [of st api l] Cons.IH [of "process_repo api st l"]
    by (auto intro: stats_le_trans)
qed

lemma bumps_append: "bumps (xs @ ys) s = bumps ys (bumps xs s)"
  by (induction xs arbitrary: s) simp_all

lemma bumps_replicate:
  "bumps (replicate n Approved) s = s\<lparr>approved := approved s + n\<rparr>"
  "bumps (replicate n Skipped) s = s\<lparr>skipped := skipped s + n\<rparr>"
  "bumps (replicate n Updated) s = s\<lparr>updated := updated s + n\<rparr>"
  "bumps (replicate n SamlBlocked) s = s\<lparr>saml_blocked := saml_blocked s + n\<rparr>"
  by (induction n arbitrary: s; simp)+

lemma stats_le_bumps:
  assumes "stats_le a b"
  shows "\<exists>bs. b = bumps bs a"
proof -
  let ?bs = "replicate (approved b - approved a) Approved @
             replicate (skipped b - skipped a) Skipped @
             replicate (updated b - updated a) Updated @
             replicate (saml_blocked b - saml_blocked a) SamlBlocked"
  have "b = bumps ?bs a"
    using assms by (simp add: bumps_append bumps_replicate stats_le_def)
  then show ?thesis by blast
qed

lemma stats_invoke: "invoke c f st = (r, st') \<Longrightarrow> stats st' = stats st"
  by (auto simp add: invoke_def split: prod.splits)

lemma stats_syncBranchIfBehind:
  "syncBranchIfBehind api owner repo d st = (b, st') \<Longrightarrow> stats st' = stats st"
  by (auto simp add: syncBranchIfBehind_def split: prod.splits sum.splits if_splits
      dest!: stats_invoke)

lemma stats_isPullRequestGreen:
  "isPullRequestGreen api owner repo pr st = (g, st') \<Longrightarrow> stats st' = stats st"
  by (auto simp add: isPullRequestGreen_def split: prod.splits sum.splits dest!: stats_invoke)

lemma stats_approvePullRequest:
  "approvePullRequest api owner repo n st = (r, st') \<Longrightarrow> stats st' = stats st"
  unfolding approvePullRequest_def
  by (auto split: prod.splits sum.splits bool.splits dest!: stats_invoke)

text \<open>One pass over a pull request applies \<^verbatim>\<open>++\<close> to at most one counter, once.\<close>

lemma stats_triage_pr:
  "stats (snd (triage_pr api owner repo pr st)) \<in>
     {stats st, bump Approved (stats st), bump Skipped (stats st), bump Updated (stats st)}"
proof -
  obtain r1 st1 where get: "invoke (PullsGet owner repo (number pr))
       (pulls_get api owner repo (number pr)) st = (r1, st1)"
    by (cases "invoke (PullsGet owner repo (number pr)) (pulls_get api owner repo (number pr)) st")
  have q1: "stats st1 = stats st"
    using get by (rule stats_invoke)
  show ?thesis
  proof (cases r1)
    case (Inl err)
    then show ?thesis using get q1 by (simp add: triage_pr_def)
  next
    case (Inr d)
    obtain b st2 where sync: "syncBranchIfBehind api owner repo d st1 = (b, st2)"
      by (cases "syncBranchIfBehind api owner repo d st1")
    have q2: "stats st2 = stats st"
      using q1 stats_syncBranchIfBehind [OF sync] by simp
    obtain g st3 where green: "isPullRequestGreen api owner repo pr st2 = (g, st3)"
      by (cases "isPullRequestGreen api owner repo pr st2")
    have q3: "stats st3 = stats st"
      using q2 stats_isPullRequestGreen [OF green] by simp
    obtain a st4 where appr: "approvePullRequest api owner repo (number pr) st3 = (a, st4)"
      by (cases "approvePullRequest api owner repo (number pr) st3")
    have q4: "stats st4 = stats st"
      using q3 stats_approvePullRequest [OF appr] by simp
    show ?thesis
      using get Inr sync green appr q2 q3 q4
      by (cases b; cases g; cases a)
        (simp_all add: triage_pr_def inc_updated_def inc_skipped_def inc_approved_def)
  qed
qed

text \<open>A line of the repository list under a blocked organization applies it once.\<close>

lemma stats_blocked_line:
  assumes "parse_full_name fullName = Some (owner, repo)"
    and "\<not> hasAccess (fst (cached_access api owner st))"
  shows "stats (process_repo api st fullName) = bump SamlBlocked (stats st)"
proof -
  obtain ai st1 where acc: "cached_access api owner st = (ai, st1)"
    by (cases "cached_access api owner st")
  have "stats st1 = stats st"
    using cached_access_stats [of api owner st] acc by simp
  then show ?thesis
    using assms acc by (simp add: process_repo_def inc_saml_blocked_def)
qed

text \<open>
  Claim C7 says that the run keeps five counters and that the summary reports the pull
  requests skipped as not green and those skipped for another reason as separate values.
  The script keeps four counters, and both kinds of skip go to the one counter
  \<^verbatim>\<open>skipped\<close>. Below, one run skips a pull request whose commit is pending and another run
  fails to list the pull requests of a repository; the two runs end with the same counters
  and print the same summary.
\<close>

theorem skipped_merged_counterexample:
  "calls (main api_not_green [''o/r''] ()) =
     [OrgsGet ''o'', PullsList ''o'' ''r'', PullsGet ''o'' ''r'' 1,
      GetCombinedStatusForRef ''o'' ''r'' ''abc''] \<and>
   calls (main api_list_fails [''o/r''] ()) = [OrgsGet ''o'', PullsList ''o'' ''r''] \<and>
   stats (main api_not_green [''o/r''] ()) =
     \<lparr>approved = 0, skipped = 1, updated = 0, saml_blocked = 0\<rparr> \<and>
   stats (main api_list_fails [''o/r''] ()) =
     \<lparr>approved = 0, skipped = 1, updated = 0, saml_blocked = 0\<rparr> \<and>
   summary (stats (main api_not_green [''o/r''] ())) =
     [(''Approved'', 0), (''Skipped'', 1), (''Updated'', 0)] \<and>
   summary (stats (main api_list_fails [''o/r''] ())) =
     [(''Approved'', 0), (''Skipped'', 1), (''Updated'', 0)]"
  by (simp add: run_defs example_defs api_not_green_def api_list_fails_def summary_def)

text \<open>
  Claim C7, amended. The run keeps four counters, \<^verbatim>\<open>approved\<close>, \<^verbatim>\<open>skipped\<close>, \<^verbatim>\<open>updated\<close> and
  \<^verbatim>\<open>saml_blocked\<close>. Every run starts with each of them at zero, and they are only
  incremented: the counters at the end of any stretch of a run are those at its start
  after a sequence of increments by one, so none is ever lowered; one pass over a pull
  request increments at most one of \<^verbatim>\<open>approved\<close>, \<^verbatim>\<open>skipped\<close> and \<^verbatim>\<open>updated\<close>, once; the
  \<^verbatim>\<open>catch\<close> of a repository increments \<^verbatim>\<open>saml_blocked\<close> once when the status of the error is
  403 or 401 and \<^verbatim>\<open>skipped\<close> once otherwise; a line under a blocked organization increments
  \<^verbatim>\<open>saml_blocked\<close> once. A pull request that is not green and an error caught with another
  status both go to the one counter \<^verbatim>\<open>skipped\<close>. The summary reports the values of
  \<^verbatim>\<open>approved\<close>, \<^verbatim>\<open>skipped\<close> and \<^verbatim>\<open>updated\<close>, in that order, and the value of \<^verbatim>\<open>saml_blocked\<close>
  when it is positive: one count of skips, not two.
\<close>

theorem four_counters:
  "main api repos s = run_from api (initial_state s) repos \<and>
   stats (initial_state s) = \<lparr>approved = 0, skipped = 0, updated = 0, saml_blocked = 0\<rparr> \<and>
   (\<exists>bs. stats (run_from api st repos) = bumps bs (stats st)) \<and>
   approved (stats st) \<le> approved (stats (run_from api st repos)) \<and>
   skipped (stats st) \<le> skipped (stats (run_from api st repos)) \<and>
   updated (stats st) \<le> updated (stats (run_from api st repos)) \<and>
   saml_blocked (stats st) \<le> saml_blocked (stats (run_from api st repos)) \<and>
   stats (snd (triage_pr api owner repo pr st)) \<in>
     {stats st, bump Approved (stats st), bump Skipped (stats st), bump Updated (stats st)} \<and>
   (\<forall>d s1. pulls_get api owner repo (number pr) (remote st) = (Inr d, s1) \<and> \<not> is_outdated d \<and>
        fst (getCombinedStatusForRef api owner repo (head_sha pr) s1) \<noteq> Inr ''success'' \<longrightarrow>
      stats (snd (triage_pr api owner repo pr st)) = bump Skipped (stats st)) \<and>
   stats (catch_repo err st) =
     (if status err = Some 403 \<or> status err = Some 401 then bump SamlBlocked (stats st)
      else bump Skipped (stats st)) \<and>
   (parse_full_name fullName = Some (owner, repo) \<and>
      \<not> hasAccess (fst (cached_access api owner st)) \<longrightarrow>
    stats (process_repo api st fullName) = bump SamlBlocked (stats st)) \<and>
   summary (stats st) =
     [(''Approved'', approved (stats st)), (''Skipped'', skipped (stats st)),
      (''Updated'', updated (stats st))]
       @ (if saml_blocked (stats st) > 0 then [(''SAML Blocked'', saml_blocked (stats st))] else [])"
proof -
  have start: "main api repos s = run_from api (initial_state s) repos"
    "stats (initial_state s) = \<lparr>approved = 0, skipped = 0, updated = 0, saml_blocked = 0\<rparr>"
    by (simp_all add: main_def initial_state_def)
  have mono: "stats_le (stats st) (stats (run_from api st repos))"
    by (rule run_from_stats_le)
  have incs: "\<exists>bs. stats (run_from api st repos) = bumps bs (stats st)"
    using mono by (rule stats_le_bumps)
  have pass: "stats (snd (triage_pr api owner repo pr st)) \<in>
     {stats st, bump Approved (stats st), bump Skipped (stats st), bump Updated (stats st)}"
    by (rule stats_triage_pr)
  have ng: "\<forall>d s1. pulls_get api owner repo (number pr) (remote st) = (Inr d, s1) \<and> \<not> is_outdated d \<and>
        fst (getCombinedStatusForRef api owner repo (head_sha pr) s1) \<noteq> Inr ''success'' \<longrightarrow>
      stats (snd (triage_pr api owner repo pr st)) = bump Skipped (stats st)"
    by (auto simp add: triage_pr_def invoke_def syncBranchIfBehind_def isPullRequestGreen_def
        inc_skipped_def split: prod.splits sum.splits)
  have ce: "stats (catch_repo err st) =
     (if status err = Some 403 \<or> status err = Some 401 then bump SamlBlocked (stats st)
      else bump Skipped (stats st))"
    by (simp add: catch_repo_def inc_skipped_def inc_saml_blocked_def)
  have bl: "parse_full_name fullName = Some (owner, repo) \<and>
      \<not> hasAccess (fst (cached_access api owner st)) \<longrightarrow>
    stats (process_repo api st fullName) = bump SamlBlocked (stats st)"
    using stats_blocked_line by blast
  have su: "summary (stats st) =
     [(''Approved'', approved (stats st)), (''Skipped'', skipped (stats st)),
      (''Updated'', updated (stats st))]
       @ (if saml_blocked (stats st) > 0 then [(''SAML Blocked'', saml_blocked (stats st))] else [])"
    by (simp add: summary_def)
  from start mono incs pass ng ce bl su show ?thesis
    unfolding stats_le_def by blast
qed

text \<open>
  The amended claim on three runs: a pull request that is not green, a caught error with
  status 500, and a repository line under an organization that answers the probe with 403.
\<close>

theorem four_counters_witness:
  "fst (pulls_get api_not_green ''o'' ''r'' 1 ()) = Inr (pr_details 1 ''abc'' ''clean'') \<and>
   \<not> is_outdated (pr_details 1 ''abc'' ''clean'') \<and>
   fst (getCombinedStatusForRef api_not_green ''o'' ''r'' ''abc'' ()) = Inr ''pending'' \<and>
   stats (snd (triage_pr api_not_green ''o'' ''r'' (pr_item 1 ''abc'') (initial_state ()))) =
     \<lparr>approved = 0, skipped = 1, updated = 0, saml_blocked = 0\<rparr> \<and>
   stats (catch_repo (http_error 500) (initial_state ())) =
     \<lparr>approved = 0, skipped = 1, updated = 0, saml_blocked = 0\<rparr> \<and>
   stats (main api_not_green [''o/r''] ()) =
     \<lparr>approved = 0, skipped = 1, updated = 0, saml_blocked = 0\<rparr> \<and>
   summary (stats (main api_not_green [''o/r''] ())) =
     [(''Approved'', 0), (''Skipped'', 1), (''Updated'', 0)] \<and>
   parse_full_name ''acme/a'' = Some (''acme'', ''a'') \<and>
   \<not> hasAccess (fst (cached_access (api_probe_fails 403) ''acme'' (initial_state ()))) \<and>
   stats (process_repo (api_probe_fails 403) (initial_state ()) ''acme/a'') =
     \<lparr>approved = 0, skipped = 0, updated = 0, saml_blocked = 1\<rparr> \<and>
   summary (stats (process_repo (api_probe_fails 403) (initial_state ()) ''acme/a'')) =
     [(''Approved'', 0), (''Skipped'', 0), (''Updated'', 0), (''SAML Blocked'', 1)]"
  using four_counters [where api = api_not_green and s = "()" and st = "initial_state ()"
      and repos = "[''o/r'']" and owner = "''o''" and repo = "''r''"
      and pr = "pr_item 1 ''abc''" and err = "http_error 500" and fullName = "''o/r''"]
    four_counters [where api = api_not_green and s = "()"
      and st = "main api_not_green [''o/r''] ()"
      and repos = "[]" and owner = "''o''" and repo = "''r''"
      and pr = "pr_item 1 ''abc''" and err = "http_error 500" and fullName = "''o/r''"]
    four_counters [where api = "api_probe_fails 403" and s = "()" and st = "initial_state ()"
      and repos = "[]" and owner = "''acme''" and repo = "''a''"
      and pr = "pr_item 1 ''abc''" and err = "http_error 500" and fullName = "''acme/a''"]
    four_counters [where api = "api_probe_fails 403" and s = "()"
      and st = "process_repo (api_probe_fails 403) (initial_state ()) ''acme/a''"
      and repos = "[]" and owner = "''acme''" and repo = "''a''"
      and pr = "pr_item 1 ''abc''" and err = "http_error 500" and fullName = "''acme/a''"]
  by (simp add: run_defs example_defs api_not_green_def api_probe_fails_def summary_def)

subsection \<open>Exceptions\<close>

text \<open>
  Claim C2 says that an exception raised while one pull request is processed is turned
  into the skipped-other outcome for that pull request alone, and that the remaining pull
  requests of the repository are still processed. The \<^verbatim>\<open>try\<close> encloses the whole loop
  over the pull requests of a repository, so the exception ends that loop. Below, the
  repository has two green Dependabot pull requests and fetching the first fails with
  status 500: the run issues no request for the second, which on its own would be
  approved, and ends with one skip. With status 403 in place of 500 the error is counted
  under \<^verbatim>\<open>saml_blocked\<close> and not as a skip.
\<close>

theorem sibling_dropped_counterexample:
  "fst (pulls_list (api_first_pr_throws 500) ''o'' ''r'' ()) =
     Inr [pr_item 1 ''aaa'', pr_item 2 ''bbb''] \<and>
   is_dependabot (pr_item 1 ''aaa'') \<and> is_dependabot (pr_item 2 ''bbb'') \<and>
   fst (pulls_get (api_first_pr_throws 500) ''o'' ''r'' 1 ()) = Inl (http_error 500) \<and>
   calls (main (api_first_pr_throws 500) [''o/r''] ()) =
     [OrgsGet ''o'', PullsList ''o'' ''r'', PullsGet ''o'' ''r'' 1] \<and>
   stats (main (api_first_pr_throws 500) [''o/r''] ()) =
     \<lparr>approved = 0, skipped = 1, updated = 0, saml_blocked = 0\<rparr> \<and>
   stats (snd (triage_pr (api_first_pr_throws 500) ''o'' ''r'' (pr_item 2 ''bbb'') (initial_state ()))) =
     \<lparr>approved = 1, skipped = 0, updated = 0, saml_blocked = 0\<rparr> \<and>
   stats (main (api_first_pr_throws 403) [''o/r''] ()) =
     \<lparr>approved = 0, skipped = 0, updated = 0, saml_blocked = 1\<rparr>"
  by (simp add: run_defs example_defs api_first_pr_throws_def)

lemma triage_prs_stops:
  assumes "triage_prs api owner repo before st = (Inr (), st3)"
    and "triage_pr api owner repo pr st3 = (Inl err, st4)"
  shows "triage_prs api owner repo (before @ pr # after) st = (Inl err, st4)"
  using assms
proof (induction before arbitrary: st)
  case Nil
  then show ?case by simp
next
  case (Cons p ps)
  then show ?case
    by (auto split: prod.splits sum.splits)
qed

text \<open>
  Claim C2, amended. An exception raised while one pull request is processed is caught by
  the \<^verbatim>\<open>catch\<close> around the work on its repository. It ends the work on that repository:
  the state the repository is left in is the state at the exception with one counter
  raised by one, so nothing is sent for the pull requests that come after the failing one.
  The counter is \<^verbatim>\<open>saml_blocked\<close> when the status of the error is 403 or 401 and \<^verbatim>\<open>skipped\<close>
  otherwise. The run then continues with the remaining repositories.
\<close>

theorem exception_ends_repository:
  assumes "parse_full_name fullName = Some (owner, repo)"
    and "cached_access api owner st = (accessInfo, st1)"
    and "hasAccess accessInfo"
    and "pulls_list api owner repo (remote st1) = (Inr pullRequests, s2)"
    and "filter is_dependabot pullRequests = before @ pr # after"
    and "triage_prs api owner repo before
           (st1\<lparr>calls := calls st1 @ [PullsList owner repo], remote := s2\<rparr>) = (Inr (), st3)"
    and "triage_pr api owner repo pr st3 = (Inl err, st4)"
  shows "run_from api st (fullName # rest) = run_from api (catch_repo err st4) rest \<and>
         calls (catch_repo err st4) = calls st4 \<and>
         stats (catch_repo err st4) =
           (if status err = Some 403 \<or> status err = Some 401
            then (stats st4)\<lparr>saml_blocked := saml_blocked (stats st4) + 1\<rparr>
            else (stats st4)\<lparr>skipped := skipped (stats st4) + 1\<rparr>)"
proof -
  let ?st2 = "st1\<lparr>calls := calls st1 @ [PullsList owner repo], remote := s2\<rparr>"
  have stop: "triage_prs api owner repo (before @ pr # after) ?st2 = (Inl err, st4)"
    using assms(6) assms(7) by (rule triage_prs_stops)
  have "try_repo api owner repo st1 = catch_repo err st4"
    using assms(4) assms(5) stop by (simp add: try_repo_def invoke_def)
  then have "process_repo api st fullName = catch_repo err st4"
    using assms(1) assms(2) assms(3) by (simp add: process_repo_def)
  then have "run_from api st (fullName # rest) = run_from api (catch_repo err st4) rest"
    by (simp add: run_from_def)
  then show ?thesis
    by (simp add: catch_repo_def inc_saml_blocked_def inc_skipped_def)
qed

text \<open>
  The run with two repositories: the first stops at its failing pull request, and the run
  goes on to list the pull requests of the second.
\<close>

theorem exception_ends_repository_witness:
  "parse_full_name ''o/r'' = Some (''o'', ''r'') \<and>
   triage_pr (api_first_pr_throws 500) ''o'' ''r'' (pr_item 1 ''aaa'')
     ((initial_state ())
        \<lparr>orgAccessCache := [''o'' \<mapsto> \<lparr>hasAccess = True, error = None\<rparr>],
         calls := [OrgsGet ''o'', PullsList ''o'' ''r'']\<rparr>) =
     (Inl (http_error 500),
      (initial_state ())
        \<lparr>orgAccessCache := [''o'' \<mapsto> \<lparr>hasAccess = True, error = None\<rparr>],
         calls := [OrgsGet ''o'', PullsList ''o'' ''r'', PullsGet ''o'' ''r'' 1]\<rparr>) \<and>
   calls (run_from (api_first_pr_throws 500) (initial_state ()) [''o/r'', ''o/r2'']) =
     [OrgsGet ''o'', PullsList ''o'' ''r'', PullsGet ''o'' ''r'' 1,
      PullsList ''o'' ''r2'', PullsGet ''o'' ''r2'' 1] \<and>
   stats (run_from (api_first_pr_throws 500) (initial_state ()) [''o/r'', ''o/r2'']) =
     \<lparr>approved = 0, skipped = 2, updated = 0, saml_blocked = 0\<rparr>"
  using exception_ends_repository [where fullName = "''o/r''" and owner = "''o''" and repo = "''r''"
      and api = "api_first_pr_throws 500" and st = "initial_state ()"
      and accessInfo = "\<lparr>hasAccess = True, error = None\<rparr>"
      and ?st1.0 = "(initial_state ())
        \<lparr>orgAccessCache := [''o'' \<mapsto> \<lparr>hasAccess = True, error = None\<rparr>],
         calls := [OrgsGet ''o'']\<rparr>"
      and pullRequests = "[pr_item 1 ''aaa'', pr_item 2 ''bbb'']" and ?s2.0 = "()"
      and before = "[]" and pr = "pr_item 1 ''aaa''" and after = "[pr_item 2 ''bbb'']"
      and ?st3.0 = "(initial_state ())
        \<lparr>orgAccessCache := [''o'' \<mapsto> \<lparr>hasAccess = True, error = None\<rparr>],
         calls := [OrgsGet ''o'', PullsList ''o'' ''r'']\<rparr>"
      and err = "http_error 500"
      and ?st4.0 = "(initial_state ())
        \<lparr>orgAccessCache := [''o'' \<mapsto> \<lparr>hasAccess = True, error = None\<rparr>],
         calls := [OrgsGet ''o'', PullsList ''o'' ''r'', PullsGet ''o'' ''r'' 1]\<rparr>"
      and rest = "[''o/r2'']"]
  by (simp add: run_defs example_defs api_first_pr_throws_def)

end
